theory Spec2Isabelle
  imports Complex_Main "HOL-Library.Multiset"
begin

section \<open>JavaScript numbers\<close>

text \<open>
  The calculator works on JavaScript numbers. A number is modelled as a finite real, one
  of the two infinities, or NaN. In this section arithmetic on finite values is exact:
  rounding, overflow to infinity and the sign of zero are not modelled. What is modelled
  is where the special values come from and how they propagate: division by zero,
  infinity minus infinity, zero times infinity, comparisons with NaN, and truthiness.
  The rounding of every operation to a binary64 value is added in the section on binary64
  arithmetic, and the dispatch loop is given there a second time with it.
\<close>

datatype jsnum = Fin real | PInf | NInf | NaN

fun isFinite :: "jsnum \<Rightarrow> bool" where
  "isFinite (Fin _) = True"
| "isFinite _ = False"

fun jneg :: "jsnum \<Rightarrow> jsnum" where
  "jneg (Fin a) = Fin (- a)"
| "jneg PInf = NInf"
| "jneg NInf = PInf"
| "jneg NaN = NaN"

fun jadd :: "jsnum \<Rightarrow> jsnum \<Rightarrow> jsnum" where
  "jadd (Fin a) (Fin b) = Fin (a + b)"
| "jadd NaN _ = NaN"
| "jadd _ NaN = NaN"
| "jadd PInf NInf = NaN"
| "jadd NInf PInf = NaN"
| "jadd PInf _ = PInf"
| "jadd _ PInf = PInf"
| "jadd NInf _ = NInf"
| "jadd _ NInf = NInf"

definition jsub :: "jsnum \<Rightarrow> jsnum \<Rightarrow> jsnum" where
  "jsub a b = jadd a (jneg b)"

text \<open>The sign of a product or quotient with an infinite operand.\<close>

definition signedInf :: "bool \<Rightarrow> jsnum" where
  "signedInf positive = (if positive then PInf else NInf)"

fun jmul :: "jsnum \<Rightarrow> jsnum \<Rightarrow> jsnum" where
  "jmul (Fin a) (Fin b) = Fin (a * b)"
| "jmul NaN _ = NaN"
| "jmul _ NaN = NaN"
| "jmul PInf (Fin b) = (if b = 0 then NaN else signedInf (0 < b))"
| "jmul NInf (Fin b) = (if b = 0 then NaN else signedInf (b < 0))"
| "jmul (Fin a) PInf = (if a = 0 then NaN else signedInf (0 < a))"
| "jmul (Fin a) NInf = (if a = 0 then NaN else signedInf (a < 0))"
| "jmul PInf PInf = PInf"
| "jmul PInf NInf = NInf"
| "jmul NInf PInf = NInf"
| "jmul NInf NInf = PInf"

text \<open>
  Division never raises: a zero divisor gives an infinity, or NaN when the dividend is
  zero as well.
\<close>

fun jdiv :: "jsnum \<Rightarrow> jsnum \<Rightarrow> jsnum" where
  "jdiv (Fin a) (Fin b) =
     (if b = 0 then (if a = 0 then NaN else signedInf (0 < a)) else Fin (a / b))"
| "jdiv NaN _ = NaN"
| "jdiv _ NaN = NaN"
| "jdiv (Fin a) PInf = Fin 0"
| "jdiv (Fin a) NInf = Fin 0"
| "jdiv PInf (Fin b) = signedInf (0 \<le> b)"
| "jdiv NInf (Fin b) = signedInf (b < 0)"
| "jdiv PInf PInf = NaN"
| "jdiv PInf NInf = NaN"
| "jdiv NInf PInf = NaN"
| "jdiv NInf NInf = NaN"

text \<open>Comparisons: every comparison with NaN is false.\<close>

fun jlt :: "jsnum \<Rightarrow> jsnum \<Rightarrow> bool" where
  "jlt (Fin a) (Fin b) = (a < b)"
| "jlt NaN _ = False"
| "jlt _ NaN = False"
| "jlt NInf NInf = False"
| "jlt NInf _ = True"
| "jlt _ NInf = False"
| "jlt PInf _ = False"
| "jlt _ PInf = True"

fun jle :: "jsnum \<Rightarrow> jsnum \<Rightarrow> bool" where
  "jle (Fin a) (Fin b) = (a \<le> b)"
| "jle NaN _ = False"
| "jle _ NaN = False"
| "jle NInf _ = True"
| "jle _ PInf = True"
| "jle PInf _ = False"
| "jle _ NInf = False"

text \<open>\<open>Math.min\<close> and \<open>Math.max\<close> return NaN as soon as one argument is NaN.\<close>

fun mathMin :: "jsnum \<Rightarrow> jsnum \<Rightarrow> jsnum" where
  "mathMin NaN _ = NaN"
| "mathMin _ NaN = NaN"
| "mathMin a b = (if jle a b then a else b)"

fun mathMax :: "jsnum \<Rightarrow> jsnum \<Rightarrow> jsnum" where
  "mathMax NaN _ = NaN"
| "mathMax _ NaN = NaN"
| "mathMax a b = (if jle a b then b else a)"

text \<open>
  \<open>Math.pow\<close> with an integer exponent, the only use the calculator makes of it (a
  loop counter, or the lifetime in years).
\<close>

fun mathPow :: "jsnum \<Rightarrow> int \<Rightarrow> jsnum" where
  "mathPow x n =
     (if n = 0 then Fin 1
      else case x of
        NaN \<Rightarrow> NaN
      | Fin b \<Rightarrow>
          (if 0 < n then Fin (b ^ nat n)
           else if b = 0 then PInf
           else Fin (1 / b ^ nat (- n)))
      | PInf \<Rightarrow> (if 0 < n then PInf else Fin 0)
      | NInf \<Rightarrow> (if 0 < n then (if even n then PInf else NInf) else Fin 0))"

text \<open>A number is falsy when it is zero or NaN.\<close>

fun truthy :: "jsnum \<Rightarrow> bool" where
  "truthy (Fin a) = (a \<noteq> 0)"
| "truthy NaN = False"
| "truthy _ = True"

text \<open>
  An array cell holds a number or \<open>undefined\<close> (what a read outside the array gives).
  In arithmetic \<open>undefined\<close> becomes NaN.
\<close>

datatype jsval = Undefined | Number jsnum

fun toNumber :: "jsval \<Rightarrow> jsnum" where
  "toNumber Undefined = NaN"
| "toNumber (Number n) = n"

text \<open>\<open>a[i]\<close> for an integer index: \<open>undefined\<close> outside the array.\<close>

definition arrayGet :: "jsval list \<Rightarrow> int \<Rightarrow> jsval" where
  "arrayGet a i = (if 0 \<le> i \<and> i < int (length a) then a ! nat i else Undefined)"

section \<open>Time series ingestion\<close>


text \<open>
  The index read for the slot \<open>(day, hour)\<close> in \<open>applyTimezoneCorrection\<close>: one wrap of
  the hour, and one wrap of the day over a 365-day year.
\<close>

definition localIndex :: "int \<Rightarrow> nat \<Rightarrow> nat \<Rightarrow> int" where
  "localIndex offset day hour =
     (let localHour = int hour - offset; localDay = int day in
      if localHour < 0 then
        (let localHour = localHour + 24; localDay = localDay - 1;
             localDay = (if localDay < 0 then 364 else localDay)
         in localDay * 24 + localHour)
      else if 24 \<le> localHour then
        (let localHour = localHour - 24; localDay = localDay + 1;
             localDay = (if 365 \<le> localDay then 0 else localDay)
         in localDay * 24 + localHour)
      else localDay * 24 + localHour)"

text \<open>The body of the two nested loops, for one \<open>(day, hour)\<close>.\<close>

definition shiftSlot :: "jsval list \<Rightarrow> int \<Rightarrow> nat \<times> nat \<Rightarrow> jsval list \<Rightarrow> jsval list" where
  "shiftSlot hourlyData offset dh shiftedData =
     (let originalIndex = fst dh * 24 + snd dh;
          li = localIndex offset (fst dh) (snd dh)
      in if originalIndex < length hourlyData \<and> li < int (length hourlyData)
         then shiftedData[originalIndex := arrayGet hourlyData li]
         else shiftedData)"

definition applyTimezoneCorrection :: "jsval list \<Rightarrow> int \<Rightarrow> jsval list" where
  "applyTimezoneCorrection hourlyData offset =
     (if offset = 0 then hourlyData
      else fold (\<lambda>day shiftedData.
                   fold (\<lambda>hour. shiftSlot hourlyData offset (day, hour)) [0..<24] shiftedData)
             [0..<365] (replicate (length hourlyData) (Number (Fin 0))))"





section \<open>Inputs\<close>

datatype sourceType = Grid | Solar | Wind

text \<open>
  A power source. \<open>lcoe\<close> is \<open>null\<close> (\<open>None\<close>) or a number; \<open>timeSeriesData\<close> is
  \<open>null\<close> or an array. The fields the calculation never reads (price, location, year)
  are left out.
\<close>

record powerSource =
  type :: sourceType
  capacity :: jsnum
  capex :: jsnum
  opex :: jsnum
  lcoe :: "jsnum option"
  timeSeriesData :: "jsval list option"

record electrolyzer =
  capacity :: jsnum
  capex :: jsnum
  opex :: jsnum
  efficiency :: jsnum
  baseConsumption :: jsnum

text \<open>The lifetime is a whole number of years (the form steps it by 1).\<close>

record financial =
  returnRate :: jsnum
  lifetime :: int
  capacityFactor :: jsnum

record inputs =
  powerSources :: "powerSource list"
  electrolyzer :: electrolyzer
  financial :: financial

text \<open>The inputs the application starts with.\<close>

definition initialGrid :: powerSource where
  "initialGrid =
     \<lparr>type = Grid, capacity = Fin 100, capex = Fin 0, opex = Fin 80,
      lcoe = Some (Fin (5 / 100)), timeSeriesData = None\<rparr>"

definition initialSolar :: powerSource where
  "initialSolar =
     \<lparr>type = Solar, capacity = Fin 150, capex = Fin 1000, opex = Fin 20,
      lcoe = None, timeSeriesData = None\<rparr>"

definition initialWind :: powerSource where
  "initialWind =
     \<lparr>type = Wind, capacity = Fin 100, capex = Fin 1200, opex = Fin 25,
      lcoe = None, timeSeriesData = None\<rparr>"

definition initialInputs :: inputs where
  "initialInputs =
     \<lparr>powerSources = [initialGrid, initialSolar, initialWind],
      electrolyzer =
        \<lparr>capacity = Fin 100, capex = Fin 800, opex = Fin 40, efficiency = Fin 70,
         baseConsumption = Fin 50\<rparr>,
      financial = \<lparr>returnRate = Fin 8, lifetime = 20, capacityFactor = Fin 90\<rparr>\<rparr>"

section \<open>\<open>calculateLCOE\<close>\<close>

definition capacityKW :: "powerSource \<Rightarrow> jsnum" where
  "capacityKW source = jmul (powerSource.capacity source) (Fin 1000)"

definition annualEnergyProduction ::
  "powerSource \<Rightarrow> jsval list option \<Rightarrow> financial \<Rightarrow> jsnum" where
  "annualEnergyProduction source series financialParams =
     (case series of
        Some ts \<Rightarrow>
          if 0 < length ts then
            jmul (fold (\<lambda>cf acc. jadd acc (jmul (powerSource.capacity source) (toNumber cf)))
                    ts (Fin 0))
              (Fin 1000)
          else jmul (jmul (capacityKW source) (jdiv (capacityFactor financialParams) (Fin 100)))
                 (Fin 8760)
      | None \<Rightarrow>
          jmul (jmul (capacityKW source) (jdiv (capacityFactor financialParams) (Fin 100)))
            (Fin 8760))"

definition discountRateOf :: "financial \<Rightarrow> jsnum" where
  "discountRateOf financialParams = jdiv (returnRate financialParams) (Fin 100)"

definition totalPresentValueCost :: "powerSource \<Rightarrow> financial \<Rightarrow> jsnum" where
  "totalPresentValueCost source financialParams =
     fold (\<lambda>year acc.
             jadd acc (jdiv (jmul (powerSource.opex source) (capacityKW source))
                         (mathPow (jadd (Fin 1) (discountRateOf financialParams)) year)))
       [1..lifetime financialParams]
       (jmul (powerSource.capex source) (capacityKW source))"

definition totalPresentValueEnergy ::
  "powerSource \<Rightarrow> jsval list option \<Rightarrow> financial \<Rightarrow> jsnum" where
  "totalPresentValueEnergy source series financialParams =
     fold (\<lambda>year acc.
             jadd acc (jdiv (annualEnergyProduction source series financialParams)
                         (mathPow (jadd (Fin 1) (discountRateOf financialParams)) year)))
       [1..lifetime financialParams]
       (Fin 0)"

definition calculateLCOE :: "powerSource \<Rightarrow> jsval list option \<Rightarrow> financial \<Rightarrow> jsnum" where
  "calculateLCOE source series financialParams =
     jdiv (totalPresentValueCost source financialParams)
       (totalPresentValueEnergy source series financialParams)"

section \<open>\<open>calculateLCOH\<close>: merit order\<close>

text \<open>\<open>source.lcoe\<close> as a condition: \<open>null\<close>, zero and NaN are all falsy.\<close>

fun truthyLcoe :: "jsnum option \<Rightarrow> bool" where
  "truthyLcoe None = False"
| "truthyLcoe (Some l) = truthy l"

definition dispatchable :: "powerSource \<Rightarrow> bool" where
  "dispatchable source = truthyLcoe (lcoe source)"

text \<open>
  The first step of \<open>calculateLCOH\<close>: a source that is not the grid, has a falsy
  \<open>lcoe\<close> and has a time series gets its \<open>lcoe\<close> computed. The source objects are
  updated in place, so these are the sources the application holds afterwards.
\<close>

definition updateSource :: "financial \<Rightarrow> powerSource \<Rightarrow> powerSource" where
  "updateSource fin source =
     (if type source \<noteq> Grid \<and> \<not> truthyLcoe (lcoe source) \<and> timeSeriesData source \<noteq> None
      then source\<lparr>lcoe := Some (calculateLCOE source (timeSeriesData source) fin)\<rparr>
      else source)"

definition updatedSources :: "inputs \<Rightarrow> powerSource list" where
  "updatedSources inp = map (updateSource (financial inp)) (powerSources inp)"

text \<open>The comparator given to \<open>sort\<close>.\<close>

definition compareSources :: "powerSource \<Rightarrow> powerSource \<Rightarrow> jsnum" where
  "compareSources a b =
     (case lcoe a of
        None \<Rightarrow> Fin 1
      | Some la \<Rightarrow>
          if \<not> truthy la then Fin 1
          else (case lcoe b of
                  None \<Rightarrow> Fin (- 1)
                | Some lb \<Rightarrow> if \<not> truthy lb then Fin (- 1) else jsub la lb))"

text \<open>
  \<open>Array.prototype.sort\<close> is stable, and a NaN from the comparator counts as zero. It is
  modelled as the stable insertion sort: the elements are taken from left to right, and
  each is put before the first element that the comparator places it strictly before.
\<close>

fun insertSource :: "powerSource \<Rightarrow> powerSource list \<Rightarrow> powerSource list" where
  "insertSource x [] = [x]"
| "insertSource x (y # ys) =
     (if jlt (compareSources x y) (Fin 0) then x # y # ys else y # insertSource x ys)"

definition sortSources :: "powerSource list \<Rightarrow> powerSource list" where
  "sortSources xs = fold insertSource xs []"

section \<open>\<open>calculateLCOH\<close>: the dispatch loop\<close>

record dispatchEntry =
  type :: sourceType
  powerUsed :: jsnum
  powerCurtailed :: jsnum

record hourlyRecord =
  hour :: nat
  energyUsed :: jsnum
  curtailedEnergy :: jsnum
  dispatchPercentage :: jsnum
  sources :: "dispatchEntry list"

text \<open>
  \<open>energyBySource\<close> is an object keyed by source type; it keeps its keys in the order in
  which they were first written. Writing a key replaces its value in place, or appends.
\<close>

type_synonym energyObject = "(sourceType \<times> jsnum) list"

fun objectSet :: "sourceType \<Rightarrow> jsnum \<Rightarrow> energyObject \<Rightarrow> energyObject" where
  "objectSet k v [] = [(k, v)]"
| "objectSet k v (p # ps) = (if fst p = k then (k, v) # ps else p # objectSet k v ps)"

text \<open>\<open>if (!obj[k]) obj[k] = 0; obj[k] += x\<close>: a missing, zero or NaN entry restarts at 0.\<close>

definition addEnergy :: "sourceType \<Rightarrow> jsnum \<Rightarrow> energyObject \<Rightarrow> energyObject" where
  "addEnergy k x obj =
     (let obj1 = (case map_of obj k of
                    None \<Rightarrow> objectSet k (Fin 0) obj
                  | Some v \<Rightarrow> if \<not> truthy v then objectSet k (Fin 0) obj else obj)
      in case map_of obj1 k of
           None \<Rightarrow> obj1
         | Some v \<Rightarrow> objectSet k (jadd v x) obj1)"

text \<open>The variables of the two loops, the per-hour ones reset at the start of each hour.\<close>

record simulation =
  hourlyDispatch :: "hourlyRecord list"
  totalEnergyUsed :: jsnum
  totalCurtailedEnergy :: jsnum
  energyBySource :: energyObject
  hourlyEnergyUsed :: jsnum
  hourlyCurtailed :: jsnum
  sourceDispatch :: "dispatchEntry list"
  remainingDemand :: jsnum

definition capacityFactorAt :: "financial \<Rightarrow> powerSource \<Rightarrow> nat \<Rightarrow> jsnum" where
  "capacityFactorAt fin source h =
     (let fallback = (if powerSource.type source = Grid then Fin 1
                      else jdiv (capacityFactor fin) (Fin 100))
      in case timeSeriesData source of
           Some ts \<Rightarrow> if h < length ts then toNumber (ts ! h) else fallback
         | None \<Rightarrow> fallback)"

definition availablePower :: "financial \<Rightarrow> powerSource \<Rightarrow> nat \<Rightarrow> jsnum" where
  "availablePower fin source h = jmul (powerSource.capacity source)
      (capacityFactorAt fin source h)"

text \<open>One source in one hour, once the two guards of the loop body have let it through.\<close>

definition dispatchSource :: "financial \<Rightarrow> nat \<Rightarrow> powerSource \<Rightarrow> simulation \<Rightarrow> simulation" where
  "dispatchSource fin h source st =
     (let available = availablePower fin source h;
          used = mathMin available (remainingDemand st);
          curtailed = mathMax (Fin 0) (jsub available used)
      in st\<lparr>remainingDemand := jsub (remainingDemand st) used,
            hourlyEnergyUsed := jadd (hourlyEnergyUsed st) used,
            hourlyCurtailed := jadd (hourlyCurtailed st) curtailed,
            energyBySource := addEnergy (powerSource.type source) used (energyBySource st),
            sourceDispatch := sourceDispatch st @
              [\<lparr>type = powerSource.type source, powerUsed = used, powerCurtailed = curtailed\<rparr>]\<rparr>)"

text \<open>
  The loop over the sorted sources: it stops (\<open>break\<close>) once no demand remains, and
  passes over (\<open>continue\<close>) a source whose \<open>lcoe\<close> is falsy.
\<close>

fun sourceLoop :: "financial \<Rightarrow> nat \<Rightarrow> powerSource list \<Rightarrow> simulation \<Rightarrow> simulation" where
  "sourceLoop fin h [] st = st"
| "sourceLoop fin h (source # rest) st =
     (if jle (remainingDemand st) (Fin 0) then st
      else if \<not> truthyLcoe (lcoe source) then sourceLoop fin h rest st
      else sourceLoop fin h rest (dispatchSource fin h source st))"

definition dispatchHour ::
  "electrolyzer \<Rightarrow> financial \<Rightarrow> powerSource list \<Rightarrow> nat \<Rightarrow> simulation \<Rightarrow> simulation" where
  "dispatchHour el fin sortedSources h sim =
     (let st = sourceLoop fin h sortedSources
                 (sim\<lparr>hourlyEnergyUsed := Fin 0, hourlyCurtailed := Fin 0,
                      sourceDispatch := [], remainingDemand := electrolyzer.capacity el\<rparr>)
      in st\<lparr>totalEnergyUsed := jadd (totalEnergyUsed st) (hourlyEnergyUsed st),
            totalCurtailedEnergy := jadd (totalCurtailedEnergy st) (hourlyCurtailed st),
            hourlyDispatch := hourlyDispatch st @
              [\<lparr>hour = h, energyUsed = hourlyEnergyUsed st,
                curtailedEnergy = hourlyCurtailed st,
                dispatchPercentage = jdiv (hourlyEnergyUsed st) (electrolyzer.capacity el),
                sources = sourceDispatch st\<rparr>]\<rparr>)"

definition initialSimulation :: simulation where
  "initialSimulation =
     \<lparr>hourlyDispatch = [], totalEnergyUsed = Fin 0, totalCurtailedEnergy = Fin 0,
      energyBySource = [], hourlyEnergyUsed = Fin 0, hourlyCurtailed = Fin 0,
      sourceDispatch = [], remainingDemand = Fin 0\<rparr>"

definition simulateHours ::
  "electrolyzer \<Rightarrow> financial \<Rightarrow> powerSource list \<Rightarrow> nat list \<Rightarrow> simulation" where
  "simulateHours el fin sortedSources hs =
     fold (dispatchHour el fin sortedSources) hs initialSimulation"

definition simulateDispatch :: "inputs \<Rightarrow> simulation" where
  "simulateDispatch inp =
     simulateHours (electrolyzer inp) (financial inp) (sortSources (updatedSources inp))
       [0..<8760]"

section \<open>\<open>calculateLCOH\<close>: costs and result\<close>

definition actualEnergyPerKg :: "electrolyzer \<Rightarrow> jsnum" where
  "actualEnergyPerKg el = jdiv (baseConsumption el) (jdiv (efficiency el) (Fin 100))"

definition hydrogenProduction :: "electrolyzer \<Rightarrow> jsnum \<Rightarrow> jsnum" where
  "hydrogenProduction el energyUsedTotal =
     jdiv (jmul energyUsedTotal (Fin 1000)) (actualEnergyPerKg el)"

text \<open>The capital recovery factor.\<close>

definition crf :: "financial \<Rightarrow> jsnum" where
  "crf fin =
     (let discountRate = jdiv (returnRate fin) (Fin 100)
      in jdiv (jmul discountRate (mathPow (jadd (Fin 1) discountRate) (lifetime fin)))
           (jsub (mathPow (jadd (Fin 1) discountRate) (lifetime fin)) (Fin 1)))"

definition totalPowerSourceCapex :: "jsnum \<Rightarrow> powerSource list \<Rightarrow> jsnum" where
  "totalPowerSourceCapex factor srcs =
     fold (\<lambda>source acc.
             jadd acc
               (jmul (jmul (jmul (powerSource.capacity source) (Fin 1000))
                   (powerSource.capex source))
                  factor))
       srcs (Fin 0)"

definition totalPowerSourceOpex :: "powerSource list \<Rightarrow> jsnum" where
  "totalPowerSourceOpex srcs =
     fold (\<lambda>source acc.
             jadd acc (jmul (jmul (powerSource.capacity source) (Fin 1000))
                 (powerSource.opex source)))
       srcs (Fin 0)"

text \<open>
  One entry of \<open>energyBySource\<close> in the energy cost: priced with the \<open>lcoe\<close> of the first
  source of that type, and left out when that \<open>lcoe\<close> is falsy.
\<close>

definition energyCostStep :: "powerSource list \<Rightarrow> sourceType \<times> jsnum \<Rightarrow> jsnum \<Rightarrow> jsnum" where
  "energyCostStep srcs entry acc =
     (case find (\<lambda>s. powerSource.type s = fst entry) srcs of
        None \<Rightarrow> acc
      | Some source \<Rightarrow>
          (case lcoe source of
             None \<Rightarrow> acc
           | Some l \<Rightarrow> if truthy l then jadd acc (jmul (jmul (snd entry) (Fin 1000)) l) else acc))"

definition totalEnergyCost :: "powerSource list \<Rightarrow> energyObject \<Rightarrow> jsnum" where
  "totalEnergyCost srcs obj = fold (energyCostStep srcs) obj (Fin 0)"

record costItem =
  amount :: jsnum
  percentage :: jsnum

record costBreakdown =
  capex :: costItem
  opex :: costItem
  energy :: costItem

record energyStats =
  totalEnergyUsed :: jsnum
  totalCurtailedEnergy :: jsnum
  curtailmentPercentage :: jsnum
  utilizationRate :: jsnum

record mixEntry =
  type :: sourceType
  energy :: jsnum
  percentage :: jsnum

text \<open>
  The object given to \<open>setResults\<close>, without \<open>monthlyData\<close> (month labels and monthly
  sums of \<open>hourlyDispatch\<close>).
\<close>

record results =
  lcoh :: jsnum
  totalAnnualCost :: jsnum
  annualH2Production :: jsnum
  costBreakdown :: costBreakdown
  energyStats :: energyStats
  energyMix :: "mixEntry list"
  hourlyDispatch :: "hourlyRecord list"

text \<open>The expression stored as \<open>curtailmentPercentage\<close>.\<close>

definition curtailmentOf :: "jsnum \<Rightarrow> jsnum \<Rightarrow> jsnum" where
  "curtailmentOf energyUsedTotal curtailedEnergyTotal =
     jmul (jdiv curtailedEnergyTotal (jadd energyUsedTotal curtailedEnergyTotal)) (Fin 100)"

definition computeResults :: "inputs \<Rightarrow> results" where
  "computeResults inp =
     (let el = electrolyzer inp; fin = financial inp;
          srcs = updatedSources inp;
          sim = simulateDispatch inp;
          used = simulation.totalEnergyUsed sim;
          curtailed = simulation.totalCurtailedEnergy sim;
          h2 = hydrogenProduction el used;
          factor = crf fin;
          electrolyzerCapex =
            jmul (jmul (electrolyzer.capacity el) (Fin 1000)) (electrolyzer.capex el);
          annualizedElectrolyzerCapex = jmul electrolyzerCapex factor;
          totalAnnualizedCapex =
            jadd (totalPowerSourceCapex factor srcs) annualizedElectrolyzerCapex;
          electrolyzerOpex =
            jmul (jmul (electrolyzer.capacity el) (Fin 1000)) (electrolyzer.opex el);
          totalAnnualOpex = jadd (totalPowerSourceOpex srcs) electrolyzerOpex;
          energyCost = totalEnergyCost srcs (energyBySource sim);
          total = jadd (jadd totalAnnualizedCapex totalAnnualOpex) energyCost
      in \<lparr>lcoh = jdiv total h2,
          totalAnnualCost = total,
          annualH2Production = h2,
          costBreakdown =
            \<lparr>capex = \<lparr>amount = totalAnnualizedCapex,
                      percentage = jmul (jdiv totalAnnualizedCapex total) (Fin 100)\<rparr>,
             opex = \<lparr>amount = totalAnnualOpex,
                     percentage = jmul (jdiv totalAnnualOpex total) (Fin 100)\<rparr>,
             energy = \<lparr>amount = energyCost,
                       percentage = jmul (jdiv energyCost total) (Fin 100)\<rparr>\<rparr>,
          energyStats =
            \<lparr>totalEnergyUsed = used,
             totalCurtailedEnergy = curtailed,
             curtailmentPercentage = curtailmentOf used curtailed,
             utilizationRate = jdiv used (jmul (electrolyzer.capacity el) (Fin 8760))\<rparr>,
          energyMix =
            map (\<lambda>entry. \<lparr>type = fst entry, energy = snd entry,
                           percentage = jmul (jdiv (snd entry) used) (Fin 100)\<rparr>)
              (energyBySource sim),
          hourlyDispatch = simulation.hourlyDispatch sim\<rparr>)"

text \<open>
  The state of the application that \<open>calculateLCOH\<close> reads and writes. The function and
  its delayed callback are one step: the sources with their computed \<open>lcoe\<close> are stored
  back, the result is stored and shown. \<open>apiError\<close> is the message shown to the user
  when fetching a profile fails; \<open>calculateLCOH\<close> never writes it.
\<close>

record appState =
  inputs :: inputs
  results :: "results option"
  calculating :: bool
  showResults :: bool
  resultsCollapsed :: bool
  apiError :: string

definition calculateLCOH :: "appState \<Rightarrow> appState" where
  "calculateLCOH app =
     app\<lparr>inputs := (inputs app)\<lparr>powerSources := updatedSources (inputs app)\<rparr>,
         results := Some (computeResults (inputs app)),
         calculating := False,
         showResults := True,
         resultsCollapsed := False\<rparr>"

text \<open>The application before the first calculation.\<close>

definition initialApp :: appState where
  "initialApp =
     \<lparr>inputs = initialInputs, results = None, calculating = False, showResults = False,
      resultsCollapsed = False, apiError = ''''\<rparr>"

section \<open>Example configurations\<close>

text \<open>
  The initial inputs after an hourly profile was loaded for the solar source: every
  hour has the capacity factor 0.4, and the \<open>lcoe\<close> stored with the source is
  0.03 EUR/kWh, below the grid's 0.05 EUR/kWh. The wind source has no profile.
\<close>

definition solarWithProfile :: powerSource where
  "solarWithProfile =
     initialSolar\<lparr>lcoe := Some (Fin (3 / 100)),
                  timeSeriesData := Some (replicate 8760 (Number (Fin (2 / 5))))\<rparr>"

definition exampleInputs :: inputs where
  "exampleInputs = initialInputs\<lparr>powerSources := [initialGrid, solarWithProfile, initialWind]\<rparr>"

text \<open>
  A configuration whose only source is the grid, with the \<open>lcoe\<close> field of the grid
  set to 0 by the user.
\<close>

definition freeGrid :: powerSource where
  "freeGrid = initialGrid\<lparr>lcoe := Some (Fin 0)\<rparr>"

definition freeGridInputs :: inputs where
  "freeGridInputs = initialInputs\<lparr>powerSources := [freeGrid]\<rparr>"

definition freeGridApp :: appState where
  "freeGridApp = initialApp\<lparr>inputs := freeGridInputs\<rparr>"

section \<open>Binary64 arithmetic\<close>

text \<open>
  The numbers of the program are IEEE 754 binary64 values, and every arithmetic operation
  returns its exact result rounded to the nearest binary64 value, a tie going to the
  value whose significand is even. The sections above compute with exact reals. This
  section adds the rounding, for the properties of the dispatch loop that depend on it.

  A binary64 value has a significand of 53 bits and an exponent from -1022 to 1023, so the
  values with exponent \<open>e\<close> are the multiples of \<open>2 ^ (e - 52)\<close>; below \<open>2 ^ -1022\<close> the
  values stay \<open>2 ^ -1074\<close> apart (the subnormal numbers). The sign of zero is not
  modelled.
\<close>

text \<open>
  The exponent of a positive \<open>x\<close>, counted from \<open>e\<close>: \<open>x\<close> is halved until it is below 2,
  or doubled until it is at least 1, and the count stops at the largest and the smallest
  exponent.
\<close>

function exponentUp :: "real \<Rightarrow> int \<Rightarrow> int" where
  "exponentUp x e = (if x < 2 \<or> 1023 \<le> e then e else exponentUp (x / 2) (e + 1))"
  by pat_completeness auto
termination by (relation "measure (\<lambda>(x, e). nat (1023 - e))") auto

function exponentDown :: "real \<Rightarrow> int \<Rightarrow> int" where
  "exponentDown x e = (if 1 \<le> x \<or> e \<le> - 1022 then e else exponentDown (2 * x) (e - 1))"
  by pat_completeness auto
termination by (relation "measure (\<lambda>(x, e). nat (e + 1022))") auto

declare exponentUp.simps [simp del] exponentDown.simps [simp del]

definition exponent64 :: "real \<Rightarrow> int" where
  "exponent64 x = (if 1 \<le> \<bar>x\<bar> then exponentUp \<bar>x\<bar> 0 else exponentDown \<bar>x\<bar> 0)"

text \<open>The distance between the binary64 values around \<open>x\<close> (the unit in the last place).\<close>

definition ulp64 :: "real \<Rightarrow> real" where
  "ulp64 x = 2 powi (exponent64 x - 52)"

text \<open>The nearest integer, a tie going to the even one.\<close>

definition roundHalfEven :: "real \<Rightarrow> int" where
  "roundHalfEven x =
     (let n = \<lfloor>x\<rfloor>; r = x - of_int n
      in if r < 1 / 2 then n else if 1 / 2 < r then n + 1 else if even n then n else n + 1)"

text \<open>
  The binary64 value of a real: the nearest multiple of the unit in the last place, and an
  infinity when that is \<open>2 ^ 1024\<close> or more in magnitude. This is also the value of a
  decimal literal and of a number that \<open>parseFloat\<close> reads from a form field.
\<close>

definition round64 :: "real \<Rightarrow> jsnum" where
  "round64 x =
     (let y = of_int (roundHalfEven (x / ulp64 x)) * ulp64 x
      in if 2 ^ 1024 \<le> \<bar>y\<bar> then (if 0 < y then PInf else NInf) else Fin y)"

text \<open>
  The four operations: a finite exact result is rounded, and the infinities and NaN come
  about as in the exact operations.
\<close>

definition rounded :: "jsnum \<Rightarrow> jsnum" where
  "rounded v = (case v of Fin x \<Rightarrow> round64 x | _ \<Rightarrow> v)"

definition add64 :: "jsnum \<Rightarrow> jsnum \<Rightarrow> jsnum" where
  "add64 a b = rounded (jadd a b)"

definition sub64 :: "jsnum \<Rightarrow> jsnum \<Rightarrow> jsnum" where
  "sub64 a b = rounded (jsub a b)"

definition mul64 :: "jsnum \<Rightarrow> jsnum \<Rightarrow> jsnum" where
  "mul64 a b = rounded (jmul a b)"

definition div64 :: "jsnum \<Rightarrow> jsnum \<Rightarrow> jsnum" where
  "div64 a b = rounded (jdiv a b)"

section \<open>The dispatch loop in binary64 arithmetic\<close>

text \<open>
  The two loops of \<open>calculateLCOH\<close> once more, statement by statement as in the section on
  the dispatch loop, with every \<open>+\<close>, \<open>-\<close>, \<open>*\<close> and \<open>/\<close> rounded. \<open>Math.min\<close>,
  \<open>Math.max\<close> and the comparisons do not round. The list of sorted sources is an
  argument.
\<close>

definition capacityFactorAt64 :: "financial \<Rightarrow> powerSource \<Rightarrow> nat \<Rightarrow> jsnum" where
  "capacityFactorAt64 fin source h =
     (let fallback = (if powerSource.type source = Grid then Fin 1
                      else div64 (capacityFactor fin) (Fin 100))
      in case timeSeriesData source of
           Some ts \<Rightarrow> if h < length ts then toNumber (ts ! h) else fallback
         | None \<Rightarrow> fallback)"

definition availablePower64 :: "financial \<Rightarrow> powerSource \<Rightarrow> nat \<Rightarrow> jsnum" where
  "availablePower64 fin source h = mul64 (powerSource.capacity source)
      (capacityFactorAt64 fin source h)"

definition addEnergy64 :: "sourceType \<Rightarrow> jsnum \<Rightarrow> energyObject \<Rightarrow> energyObject" where
  "addEnergy64 k x obj =
     (let obj1 = (case map_of obj k of
                    None \<Rightarrow> objectSet k (Fin 0) obj
                  | Some v \<Rightarrow> if \<not> truthy v then objectSet k (Fin 0) obj else obj)
      in case map_of obj1 k of
           None \<Rightarrow> obj1
         | Some v \<Rightarrow> objectSet k (add64 v x) obj1)"

definition dispatchSource64 ::
  "financial \<Rightarrow> nat \<Rightarrow> powerSource \<Rightarrow> simulation \<Rightarrow> simulation" where
  "dispatchSource64 fin h source st =
     (let available = availablePower64 fin source h;
          used = mathMin available (remainingDemand st);
          curtailed = mathMax (Fin 0) (sub64 available used)
      in st\<lparr>remainingDemand := sub64 (remainingDemand st) used,
            hourlyEnergyUsed := add64 (hourlyEnergyUsed st) used,
            hourlyCurtailed := add64 (hourlyCurtailed st) curtailed,
            energyBySource := addEnergy64 (powerSource.type source) used (energyBySource st),
            sourceDispatch := sourceDispatch st @
              [\<lparr>dispatchEntry.type = powerSource.type source, powerUsed = used,
                powerCurtailed = curtailed\<rparr>]\<rparr>)"

fun sourceLoop64 :: "financial \<Rightarrow> nat \<Rightarrow> powerSource list \<Rightarrow> simulation \<Rightarrow> simulation" where
  "sourceLoop64 fin h [] st = st"
| "sourceLoop64 fin h (source # rest) st =
     (if jle (remainingDemand st) (Fin 0) then st
      else if \<not> truthyLcoe (lcoe source) then sourceLoop64 fin h rest st
      else sourceLoop64 fin h rest (dispatchSource64 fin h source st))"

definition dispatchHour64 ::
  "electrolyzer \<Rightarrow> financial \<Rightarrow> powerSource list \<Rightarrow> nat \<Rightarrow> simulation \<Rightarrow> simulation" where
  "dispatchHour64 el fin sortedSources h sim =
     (let st = sourceLoop64 fin h sortedSources
                 (sim\<lparr>hourlyEnergyUsed := Fin 0, hourlyCurtailed := Fin 0,
                      sourceDispatch := [], remainingDemand := electrolyzer.capacity el\<rparr>)
      in st\<lparr>simulation.totalEnergyUsed :=
              add64 (simulation.totalEnergyUsed st) (hourlyEnergyUsed st),
            simulation.totalCurtailedEnergy :=
              add64 (simulation.totalCurtailedEnergy st) (hourlyCurtailed st),
            simulation.hourlyDispatch := simulation.hourlyDispatch st @
              [\<lparr>hour = h, energyUsed = hourlyEnergyUsed st,
                curtailedEnergy = hourlyCurtailed st,
                dispatchPercentage = div64 (hourlyEnergyUsed st) (electrolyzer.capacity el),
                sources = sourceDispatch st\<rparr>]\<rparr>)"

definition simulateHours64 ::
  "electrolyzer \<Rightarrow> financial \<Rightarrow> powerSource list \<Rightarrow> nat list \<Rightarrow> simulation" where
  "simulateHours64 el fin sortedSources hs =
     fold (dispatchHour64 el fin sortedSources) hs initialSimulation"

text \<open>The record that the simulation pushes for hour \<open>h\<close>.\<close>

abbreviation hourRecord64 ::
  "electrolyzer \<Rightarrow> financial \<Rightarrow> powerSource list \<Rightarrow> nat \<Rightarrow> hourlyRecord" where
  "hourRecord64 el fin sortedSources h \<equiv>
     simulation.hourlyDispatch (simulateHours64 el fin sortedSources [0..<8760]) ! h"

text \<open>
  A configuration that the form can hold: an electrolyzer of 0.9 MW and two grid sources,
  one of 0.3 MW at 0.04 per kWh and one of 100 MW at 0.05 per kWh. Every number that is
  not a whole number is the binary64 value of the decimal typed in.
\<close>

definition smallGrid :: powerSource where
  "smallGrid =
     initialGrid\<lparr>powerSource.capacity := round64 (3 / 10), lcoe := Some (round64 (4 / 100))\<rparr>"

definition largeGrid :: powerSource where
  "largeGrid = initialGrid\<lparr>lcoe := Some (round64 (5 / 100))\<rparr>"

definition roundingInputs :: inputs where
  "roundingInputs =
     initialInputs\<lparr>powerSources := [smallGrid, largeGrid],
       electrolyzer := (electrolyzer initialInputs)\<lparr>electrolyzer.capacity := round64 (9 / 10)\<rparr>\<rparr>"

text \<open>The record of the first hour for this configuration.\<close>

abbreviation roundingRecord :: hourlyRecord where
  "roundingRecord \<equiv>
     hourRecord64 (electrolyzer roundingInputs) (financial roundingInputs)
       (sortSources (updatedSources roundingInputs)) 0"

section \<open>Properties of the time series ingestion\<close>

subsection \<open>Loops that write array cells\<close>

lemma fold_nested_product:
  "fold (\<lambda>d. fold (\<lambda>h. f (d, h)) hs) ds a = fold f (List.product ds hs) a"
proof (induction ds arbitrary: a)
  case Nil
  show ?case by simp
next
  case (Cons d ds)
  have "fold f (map (Pair d) hs) a = fold (\<lambda>h. f (d, h)) hs a"
    by (simp add: fold_map comp_def)
  with Cons show ?case by simp
qed

lemma fold_update_length:
  "length (fold (\<lambda>k a. if c k then a[idx k := v k] else a) ks a) = length a"
  by (induction ks arbitrary: a) auto

lemma fold_update_miss:
  "i \<notin> idx ` set ks \<Longrightarrow>
   fold (\<lambda>k a. if c k then a[idx k := v k] else a) ks a ! i = a ! i"
  by (induction ks arbitrary: a) auto

lemma fold_update_hit:
  "distinct (map idx ks) \<Longrightarrow> k \<in> set ks \<Longrightarrow> c k \<Longrightarrow> idx k < length a \<Longrightarrow>
   fold (\<lambda>k a. if c k then a[idx k := v k] else a) ks a ! idx k = v k"
proof (induction ks arbitrary: a)
  case Nil
  then show ?case by simp
next
  case (Cons x ks)
  show ?case
  proof (cases "x = k")
    case True
    with Cons.prems have "idx k \<notin> idx ` set ks" by auto
    then show ?thesis using True Cons.prems
      by (simp add: fold_update_miss)
  next
    case False
    with Cons show ?thesis by auto
  qed
qed


lemma mod_window:
  "0 \<le> y \<Longrightarrow> y < m \<Longrightarrow> x = y + k * m \<Longrightarrow> x mod m = (y :: int)"
  by simp

lemma localIndex_mod:
  assumes d: "d < 365" and h: "h < 24" and off: "\<bar>off\<bar> < 24"
  shows "localIndex off d h = (int (d * 24 + h) - off) mod 8760"
proof -
  consider (under) "int h - off < 0" "d = 0"
    | (before) "int h - off < 0" "0 < d"
    | (over) "24 \<le> int h - off" "d = 364"
    | (after) "24 \<le> int h - off" "d < 364"
    | (same) "0 \<le> int h - off" "int h - off < 24"
    using d by linarith
  then show ?thesis
  proof cases
    case under
    then have "localIndex off d h = int h - off + 8760"
      by (simp add: localIndex_def Let_def)
    moreover have "(int (d * 24 + h) - off) mod 8760 = int h - off + 8760"
      by (rule mod_window [where k = "- 1"]) (use under h off in simp_all)
    ultimately show ?thesis by simp
  next
    case before
    then have "localIndex off d h = int (d * 24 + h) - off"
      by (simp add: localIndex_def Let_def)
    moreover have "(int (d * 24 + h) - off) mod 8760 = int (d * 24 + h) - off"
      by (rule mod_window [where k = 0]) (use before d h off in simp_all)
    ultimately show ?thesis by simp
  next
    case over
    then have "localIndex off d h = int h - off - 24"
      by (simp add: localIndex_def Let_def)
    moreover have "(int (d * 24 + h) - off) mod 8760 = int h - off - 24"
      by (rule mod_window [where k = 1]) (use over h off in simp_all)
    ultimately show ?thesis by simp
  next
    case after
    then have "localIndex off d h = int (d * 24 + h) - off"
      by (simp add: localIndex_def Let_def)
    moreover have "(int (d * 24 + h) - off) mod 8760 = int (d * 24 + h) - off"
      by (rule mod_window [where k = 0]) (use after d h off in simp_all)
    ultimately show ?thesis by simp
  next
    case same
    then have "localIndex off d h = int (d * 24 + h) - off"
      by (simp add: localIndex_def Let_def)
    moreover have "(int (d * 24 + h) - off) mod 8760 = int (d * 24 + h) - off"
      by (rule mod_window [where k = 0]) (use same d h off in simp_all)
    ultimately show ?thesis by simp
  qed
qed


lemma slot_index_distinct_gen:
  "distinct (map (\<lambda>dh. fst dh * b + snd dh) (List.product [0..<n] [0..<b]))"
proof -
  have "inj_on (\<lambda>dh. fst dh * b + snd dh) (set (List.product [0..<n] [0..<b]))"
  proof (rule inj_onI)
    fix p q :: "nat \<times> nat"
    assume p: "p \<in> set (List.product [0..<n] [0..<b])"
      and q: "q \<in> set (List.product [0..<n] [0..<b])"
      and eq: "fst p * b + snd p = fst q * b + snd q"
    from p q have lt: "snd p < b" "snd q < b" by auto
    from lt have "(fst p * b + snd p) div b = fst p" "(fst q * b + snd q) div b = fst q"
      by simp_all
    with eq have f: "fst p = fst q" by simp
    with eq have "snd p = snd q" by simp
    with f show "p = q" by (simp add: prod_eq_iff)
  qed
  then show ?thesis
    by (simp add: distinct_map distinct_product)
qed

lemma slot_index_distinct:
  "distinct (map (\<lambda>dh. fst dh * 24 + snd dh) (List.product [0..<365] [0..<24]))"
  by (rule slot_index_distinct_gen)

lemma applyTimezoneCorrection_fold:
  "off \<noteq> 0 \<Longrightarrow>
   applyTimezoneCorrection xs off =
     fold (\<lambda>dh a. if fst dh * 24 + snd dh < length xs
                      \<and> localIndex off (fst dh) (snd dh) < int (length xs)
                   then a[fst dh * 24 + snd dh := arrayGet xs (localIndex off (fst dh) (snd dh))]
                   else a)
       (List.product [0..<365] [0..<24]) (replicate (length xs) (Number (Fin 0)))"
proof -
  have "shiftSlot xs off = (\<lambda>dh a. if fst dh * 24 + snd dh < length xs
                      \<and> localIndex off (fst dh) (snd dh) < int (length xs)
                   then a[fst dh * 24 + snd dh := arrayGet xs (localIndex off (fst dh) (snd dh))]
                   else a)"
    by (intro ext) (simp add: shiftSlot_def Let_def)
  moreover assume "off \<noteq> 0"
  then have "applyTimezoneCorrection xs off =
      fold (shiftSlot xs off) (List.product [0..<365] [0..<24])
        (replicate (length xs) (Number (Fin 0)))"
    unfolding applyTimezoneCorrection_def
    using fold_nested_product [of "shiftSlot xs off" "[0..<24]" "[0..<365]"] by simp
  ultimately show ?thesis by (simp only:)
qed

lemma applyTimezoneCorrection_length:
  "length (applyTimezoneCorrection xs off) = length xs"
proof (cases "off = 0")
  case True
  then show ?thesis by (simp add: applyTimezoneCorrection_def)
next
  case False
  show ?thesis
    unfolding applyTimezoneCorrection_fold [OF False]
    by (simp only: fold_update_length length_replicate)
qed

lemma applyTimezoneCorrection_nth:
  assumes len: "length xs = 8760" and off: "\<bar>off\<bar> < 24" and i: "i < 8760"
  shows "applyTimezoneCorrection xs off ! i = xs ! nat ((int i - off) mod 8760)"
proof (cases "off = 0")
  case True
  with i show ?thesis by (simp add: applyTimezoneCorrection_def)
next
  case False
  let ?k = "(i div 24, i mod 24)"
  have d: "i div 24 < 365" and h: "i mod 24 < 24" using i by auto
  have mem: "?k \<in> set (List.product [0..<365] [0..<24])" using d h by simp
  have idx: "fst ?k * 24 + snd ?k = i" by simp
  have li: "localIndex off (fst ?k) (snd ?k) = (int i - off) mod 8760"
    using localIndex_mod [OF d h off] by simp
  have rng: "0 \<le> (int i - off) mod 8760" "(int i - off) mod 8760 < 8760" by simp_all
  have "fold (\<lambda>dh a. if fst dh * 24 + snd dh < length xs
                      \<and> localIndex off (fst dh) (snd dh) < int (length xs)
                   then a[fst dh * 24 + snd dh := arrayGet xs (localIndex off (fst dh) (snd dh))]
                   else a)
       (List.product [0..<365] [0..<24]) (replicate (length xs) (Number (Fin 0)))
          ! (fst ?k * 24 + snd ?k)
        = arrayGet xs (localIndex off (fst ?k) (snd ?k))"
    by (rule fold_update_hit [OF slot_index_distinct mem])
       (use len i li rng in \<open>simp_all only: idx length_replicate\<close>, simp_all)
  then have "applyTimezoneCorrection xs off ! i = arrayGet xs ((int i - off) mod 8760)"
    unfolding applyTimezoneCorrection_fold [OF False] idx li .
  then show ?thesis
    using rng len by (simp add: arrayGet_def)
qed

subsection \<open>The timezone correction is a rotation\<close>

text \<open>
  C5. For every array of 8760 cells and every offset \<open>off\<close> with \<open>\<bar>off\<bar> < 24\<close>, the
  timezone correction with offset \<open>off\<close> followed by the correction with offset
  \<open>- off\<close> gives back the original array. The correction is a rotation of the whole
  year, so the equality holds in every cell, the hours around the change of year
  included.
\<close>

theorem timezone_round_trip:
  assumes "length xs = 8760" and "\<bar>off\<bar> < 24"
  shows "applyTimezoneCorrection (applyTimezoneCorrection xs off) (- off) = xs"
proof (rule nth_equalityI)
  show "length (applyTimezoneCorrection (applyTimezoneCorrection xs off) (- off)) = length xs"
    by (simp add: applyTimezoneCorrection_length)
next
  fix i
  assume "i < length (applyTimezoneCorrection (applyTimezoneCorrection xs off) (- off))"
  then have i: "i < 8760" using assms by (simp add: applyTimezoneCorrection_length)
  let ?j = "nat ((int i - (- off)) mod 8760)"
  have j: "?j < 8760" by simp
  have len: "length (applyTimezoneCorrection xs off) = 8760"
    using assms by (simp add: applyTimezoneCorrection_length)
  have "applyTimezoneCorrection (applyTimezoneCorrection xs off) (- off) ! i
        = applyTimezoneCorrection xs off ! ?j"
    using applyTimezoneCorrection_nth [OF len _ i, of "- off"] assms by simp
  also have "\<dots> = xs ! nat ((int ?j - off) mod 8760)"
    using applyTimezoneCorrection_nth [OF assms(1) assms(2) j] .
  also have "nat ((int ?j - off) mod 8760) = i"
    using i by (simp add: mod_diff_left_eq)
  finally show "applyTimezoneCorrection (applyTimezoneCorrection xs off) (- off) ! i = xs ! i" .
qed

theorem timezone_round_trip_witness:
  "length ((replicate 8760 (Number (Fin 1)))[17 := Number (Fin 0)]) = 8760 \<and> \<bar>5 :: int\<bar> < 24
   \<and> applyTimezoneCorrection
        (applyTimezoneCorrection ((replicate 8760 (Number (Fin 1)))[17 := Number (Fin 0)]) 5)
            (- 5)
      = (replicate 8760 (Number (Fin 1)))[17 := Number (Fin 0)]"
proof -
  have len: "length ((replicate 8760 (Number (Fin 1)))[17 := Number (Fin 0)]) = 8760"
    by (simp only: length_list_update length_replicate)
  have off: "\<bar>5 :: int\<bar> < 24"
    by simp
  from len off timezone_round_trip [OF len off] show ?thesis
    by (intro conjI)
qed

subsection \<open>Stored capacity factors\<close>








section \<open>Properties of the dispatch simulation\<close>

subsection \<open>One hour\<close>

lemma sourceLoop_stop:
  "jle (remainingDemand st) (Fin 0) \<Longrightarrow> sourceLoop fin h srcs st = st"
  by (cases srcs) simp_all

lemma sourceLoop_frame:
  "simulation.hourlyDispatch (sourceLoop fin h srcs st) = simulation.hourlyDispatch st
   \<and> simulation.totalEnergyUsed (sourceLoop fin h srcs st) = simulation.totalEnergyUsed st
   \<and> simulation.totalCurtailedEnergy (sourceLoop fin h srcs st) = simulation.totalCurtailedEnergy
       st"
  by (induction srcs arbitrary: st) (simp_all add: dispatchSource_def Let_def)

lemma sourceLoop_finite:
  assumes "\<forall>s \<in> set srcs. \<exists>a. availablePower fin s h = Fin a \<and> 0 \<le> a"
    and "remainingDemand st = Fin r" and "0 \<le> r"
    and "hourlyEnergyUsed st = Fin u"
  shows "\<exists>es r'.
      sourceDispatch (sourceLoop fin h srcs st) = sourceDispatch st @ es
    \<and> remainingDemand (sourceLoop fin h srcs st) = Fin r' \<and> 0 \<le> r'
    \<and> hourlyEnergyUsed (sourceLoop fin h srcs st) = Fin (u + (r - r'))
    \<and> fold (\<lambda>e acc. jadd acc (powerUsed e)) es (Fin u) = Fin (u + (r - r'))
    \<and> length es \<le> length (filter dispatchable srcs)
    \<and> (\<forall>i < length es.
          dispatchEntry.type (es ! i) = powerSource.type (filter dispatchable srcs ! i)
        \<and> powerCurtailed (es ! i)
            = jsub (availablePower fin (filter dispatchable srcs ! i) h) (powerUsed (es ! i))
        \<and> jle (Fin 0) (powerCurtailed (es ! i))
        \<and> (Suc i < length es \<longrightarrow>
              powerUsed (es ! i) = availablePower fin (filter dispatchable srcs ! i) h))"
  using assms
proof (induction srcs arbitrary: st r u)
  case Nil
  then show ?case by simp
next
  case (Cons s rest)
  show ?case
  proof (cases "r = 0")
    case True
    with Cons.prems have "sourceLoop fin h (s # rest) st = st" by simp
    with Cons.prems True show ?thesis by simp
  next
    case False
    with Cons.prems have rpos: "0 < r" by simp
    show ?thesis
    proof (cases "dispatchable s")
      case False
      with Cons.prems rpos have eq: "sourceLoop fin h (s # rest) st = sourceLoop fin h rest st"
        by (simp add: dispatchable_def)
      from Cons.prems have "\<forall>s \<in> set rest. \<exists>a. availablePower fin s h = Fin a \<and> 0 \<le> a"
        by simp
      from Cons.IH [OF this Cons.prems(2,3,4)] False show ?thesis
        unfolding eq by simp
    next
      case True
      from Cons.prems obtain a where a: "availablePower fin s h = Fin a" "0 \<le> a"
        by auto
      define used where "used = min a r"
      define st1 where "st1 = dispatchSource fin h s st"
      have used: "mathMin (Fin a) (Fin r) = Fin used"
        by (simp add: used_def min_def)
      have curt: "mathMax (Fin 0) (jsub (Fin a) (Fin used)) = Fin (a - used)"
        by (simp add: jsub_def used_def min_def)
      have st1: "remainingDemand st1 = Fin (r - used)" "hourlyEnergyUsed st1 = Fin (u + used)"
        "sourceDispatch st1 = sourceDispatch st @
           [\<lparr>dispatchEntry.type = powerSource.type s, powerUsed = Fin used, powerCurtailed = Fin
               (a - used)\<rparr>]"
        using Cons.prems a used curt
        by (simp_all add: st1_def dispatchSource_def Let_def jsub_def)
      have eq: "sourceLoop fin h (s # rest) st = sourceLoop fin h rest st1"
        using Cons.prems rpos True by (simp add: dispatchable_def st1_def)
      have av: "\<forall>s \<in> set rest. \<exists>a. availablePower fin s h = Fin a \<and> 0 \<le> a"
        using Cons.prems by simp
      have r1: "0 \<le> r - used" by (simp add: used_def)
      from Cons.IH [OF av st1(1) r1 st1(2)]
      obtain es r' where es:
        "sourceDispatch (sourceLoop fin h rest st1) = sourceDispatch st1 @ es"
        "remainingDemand (sourceLoop fin h rest st1) = Fin r'" "0 \<le> r'"
        "hourlyEnergyUsed (sourceLoop fin h rest st1) = Fin (u + used + (r - used - r'))"
        "fold (\<lambda>e acc. jadd acc (powerUsed e)) es (Fin (u + used))
           = Fin (u + used + (r - used - r'))"
        "length es \<le> length (filter dispatchable rest)"
        "\<forall>i < length es.
          dispatchEntry.type (es ! i) = powerSource.type (filter dispatchable rest ! i)
        \<and> powerCurtailed (es ! i)
            = jsub (availablePower fin (filter dispatchable rest ! i) h) (powerUsed (es ! i))
        \<and> jle (Fin 0) (powerCurtailed (es ! i))
        \<and> (Suc i < length es \<longrightarrow>
              powerUsed (es ! i) = availablePower fin (filter dispatchable rest ! i) h)"
        by blast
      let ?e0 = "\<lparr>dispatchEntry.type = powerSource.type s, powerUsed = Fin used,
                  powerCurtailed = Fin (a - used)\<rparr>"
      have full: "used = a" if "es \<noteq> []"
      proof (rule ccontr)
        assume "used \<noteq> a"
        then have "r - used = 0" by (simp add: used_def min_def split: if_splits)
        with st1(1) have "sourceLoop fin h rest st1 = st1"
          by (simp add: sourceLoop_stop)
        with es(1) that show False by simp
      qed
      have props: "\<forall>i < length (?e0 # es).
          dispatchEntry.type ((?e0 # es) ! i) = powerSource.type
              ((s # filter dispatchable rest) ! i)
        \<and> powerCurtailed ((?e0 # es) ! i)
            = jsub (availablePower fin ((s # filter dispatchable rest) ! i) h)
                (powerUsed ((?e0 # es) ! i))
        \<and> jle (Fin 0) (powerCurtailed ((?e0 # es) ! i))
        \<and> (Suc i < length (?e0 # es) \<longrightarrow>
              powerUsed ((?e0 # es) ! i)
                = availablePower fin ((s # filter dispatchable rest) ! i) h)"
      proof (intro allI impI)
        fix i
        assume i: "i < length (?e0 # es)"
        show "dispatchEntry.type ((?e0 # es) ! i) = powerSource.type
            ((s # filter dispatchable rest) ! i)
        \<and> powerCurtailed ((?e0 # es) ! i)
            = jsub (availablePower fin ((s # filter dispatchable rest) ! i) h)
                (powerUsed ((?e0 # es) ! i))
        \<and> jle (Fin 0) (powerCurtailed ((?e0 # es) ! i))
        \<and> (Suc i < length (?e0 # es) \<longrightarrow>
              powerUsed ((?e0 # es) ! i)
                = availablePower fin ((s # filter dispatchable rest) ! i) h)"
        proof (cases i)
          case 0
          then show ?thesis using a full by (auto simp: jsub_def used_def)
        next
          case (Suc j)
          with i have "j < length es" by simp
          with es(7) have "dispatchEntry.type (es ! j) = powerSource.type
              (filter dispatchable rest ! j)
        \<and> powerCurtailed (es ! j)
            = jsub (availablePower fin (filter dispatchable rest ! j) h) (powerUsed (es ! j))
        \<and> jle (Fin 0) (powerCurtailed (es ! j))
        \<and> (Suc j < length es \<longrightarrow>
              powerUsed (es ! j) = availablePower fin (filter dispatchable rest ! j) h)"
            by blast
          with Suc show ?thesis by auto
        qed
      qed
      have f: "filter dispatchable (s # rest) = s # filter dispatchable rest"
        using True by simp
      show ?thesis
        unfolding eq f
      proof (rule exI [of _ "?e0 # es"], rule exI [of _ r'], intro conjI)
        show "sourceDispatch (sourceLoop fin h rest st1) = sourceDispatch st @ ?e0 # es"
          using es(1) st1(3) by simp
        show "remainingDemand (sourceLoop fin h rest st1) = Fin r'" by fact
        show "0 \<le> r'" by fact
        show "hourlyEnergyUsed (sourceLoop fin h rest st1) = Fin (u + (r - r'))"
          using es(4) by (simp add: algebra_simps)
        show "fold (\<lambda>e acc. jadd acc (powerUsed e)) (?e0 # es) (Fin u) = Fin (u + (r - r'))"
          using es(5) by (simp add: algebra_simps)
        show "length (?e0 # es) \<le> length (s # filter dispatchable rest)"
          using es(6) by simp
        show "\<forall>i < length (?e0 # es).
          dispatchEntry.type ((?e0 # es) ! i) = powerSource.type
              ((s # filter dispatchable rest) ! i)
        \<and> powerCurtailed ((?e0 # es) ! i)
            = jsub (availablePower fin ((s # filter dispatchable rest) ! i) h)
                (powerUsed ((?e0 # es) ! i))
        \<and> jle (Fin 0) (powerCurtailed ((?e0 # es) ! i))
        \<and> (Suc i < length (?e0 # es) \<longrightarrow>
              powerUsed ((?e0 # es) ! i)
                = availablePower fin ((s # filter dispatchable rest) ! i) h)"
          by (rule props)
      qed
    qed
  qed
qed

lemma updateSource_fields:
  "powerSource.capacity (updateSource fin s) = powerSource.capacity s"
  "powerSource.type (updateSource fin s) = powerSource.type s"
  "timeSeriesData (updateSource fin s) = timeSeriesData s"
  by (simp_all add: updateSource_def)

lemma availablePower_updateSource:
  "availablePower fin (updateSource fin' s) h = availablePower fin s h"
  by (simp add: availablePower_def capacityFactorAt_def updateSource_fields)

lemma availablePower_finite:
  assumes "powerSource.capacity s = Fin k" and "0 < k"
    and "capacityFactor fin = Fin p" and "0 \<le> p" and "p \<le> 100"
    and "\<forall>ts. timeSeriesData s = Some ts \<longrightarrow>
           (\<forall>v \<in> set ts. \<exists>x. v = Number (Fin x) \<and> 0 \<le> x \<and> x \<le> 1)"
  shows "\<exists>a. availablePower fin s h = Fin a \<and> 0 \<le> a"
proof -
  let ?fallback = "if powerSource.type s = Grid then Fin 1
                   else jdiv (capacityFactor fin) (Fin 100)"
  have "?fallback = Fin (if powerSource.type s = Grid then 1 else p / 100)"
    using assms(3) by simp
  moreover have "0 \<le> (if powerSource.type s = Grid then 1 else p / 100)"
    using assms(4) by simp
  ultimately have fb: "\<exists>x. ?fallback = Fin x \<and> 0 \<le> x" by blast
  have "\<exists>x. capacityFactorAt fin s h = Fin x \<and> 0 \<le> x"
  proof (cases "timeSeriesData s")
    case None
    with fb show ?thesis by (simp add: capacityFactorAt_def)
  next
    case (Some ts)
    show ?thesis
    proof (cases "h < length ts")
      case True
      then have "ts ! h \<in> set ts" by simp
      with assms(6) Some obtain x where "ts ! h = Number (Fin x)" "0 \<le> x" by blast
      with Some True show ?thesis by (simp add: capacityFactorAt_def)
    next
      case False
      with Some fb show ?thesis by (simp add: capacityFactorAt_def)
    qed
  qed
  then obtain x where "capacityFactorAt fin s h = Fin x" "0 \<le> x" by blast
  with assms(1,2) show ?thesis by (simp add: availablePower_def)
qed

lemma dispatchHour_record:
  assumes av: "\<forall>s \<in> set srcs. \<exists>a. availablePower fin s h = Fin a \<and> 0 \<le> a"
    and cap: "electrolyzer.capacity el = Fin c" and c: "0 \<le> c"
  shows "\<exists>rec. simulation.hourlyDispatch (dispatchHour el fin srcs h sim)
                 = simulation.hourlyDispatch sim @ [rec]
      \<and> hour rec = h
      \<and> length (sources rec) \<le> length (filter dispatchable srcs)
      \<and> energyUsed rec = fold (\<lambda>e acc. jadd acc (powerUsed e)) (sources rec) (Fin 0)
      \<and> jle (energyUsed rec) (Fin c)
      \<and> (\<forall>i < length (sources rec).
            dispatchEntry.type (sources rec ! i) = powerSource.type (filter dispatchable srcs ! i)
          \<and> powerCurtailed (sources rec ! i)
              = jsub (availablePower fin (filter dispatchable srcs ! i) h)
                  (powerUsed (sources rec ! i))
          \<and> jle (Fin 0) (powerCurtailed (sources rec ! i))
          \<and> (Suc i < length (sources rec) \<longrightarrow>
                powerUsed (sources rec ! i) = availablePower fin (filter dispatchable srcs ! i)
                    h))"
proof -
  define st0 where "st0 = sim\<lparr>hourlyEnergyUsed := Fin 0, hourlyCurtailed := Fin 0,
                      sourceDispatch := [], remainingDemand := electrolyzer.capacity el\<rparr>"
  have s0: "remainingDemand st0 = Fin c" "hourlyEnergyUsed st0 = Fin 0" "sourceDispatch st0 = []"
    "simulation.hourlyDispatch st0 = simulation.hourlyDispatch sim"
    by (simp_all add: st0_def cap)
  from sourceLoop_finite [OF av s0(1) c s0(2)]
  obtain es r' where es:
    "sourceDispatch (sourceLoop fin h srcs st0) = sourceDispatch st0 @ es"
    "remainingDemand (sourceLoop fin h srcs st0) = Fin r'" "0 \<le> r'"
    "hourlyEnergyUsed (sourceLoop fin h srcs st0) = Fin (0 + (c - r'))"
    "fold (\<lambda>e acc. jadd acc (powerUsed e)) es (Fin 0) = Fin (0 + (c - r'))"
    "length es \<le> length (filter dispatchable srcs)"
    "\<forall>i < length es.
          dispatchEntry.type (es ! i) = powerSource.type (filter dispatchable srcs ! i)
        \<and> powerCurtailed (es ! i)
            = jsub (availablePower fin (filter dispatchable srcs ! i) h) (powerUsed (es ! i))
        \<and> jle (Fin 0) (powerCurtailed (es ! i))
        \<and> (Suc i < length es \<longrightarrow>
              powerUsed (es ! i) = availablePower fin (filter dispatchable srcs ! i) h)"
    by blast
  let ?st = "sourceLoop fin h srcs st0"
  let ?rec = "\<lparr>hour = h, energyUsed = hourlyEnergyUsed ?st,
                curtailedEnergy = hourlyCurtailed ?st,
                dispatchPercentage = jdiv (hourlyEnergyUsed ?st) (electrolyzer.capacity el),
                sources = sourceDispatch ?st\<rparr>"
  have hd: "simulation.hourlyDispatch (dispatchHour el fin srcs h sim)
            = simulation.hourlyDispatch sim @ [?rec]"
    using sourceLoop_frame [of fin h srcs st0] s0(4)
    by (simp add: dispatchHour_def Let_def st0_def [symmetric])
  have src: "sources ?rec = es" using es(1) s0(3) by simp
  have eu: "energyUsed ?rec = Fin (c - r')" using es(4) by simp
  show ?thesis
  proof (rule exI [of _ ?rec], intro conjI)
    show "simulation.hourlyDispatch (dispatchHour el fin srcs h sim)
            = simulation.hourlyDispatch sim @ [?rec]" by (rule hd)
    show "hour ?rec = h" by simp
    show "length (sources ?rec) \<le> length (filter dispatchable srcs)"
      unfolding src by (rule es(6))
    show "energyUsed ?rec = fold (\<lambda>e acc. jadd acc (powerUsed e)) (sources ?rec) (Fin 0)"
      unfolding src eu using es(5) by simp
    show "jle (energyUsed ?rec) (Fin c)"
      unfolding eu using es(3) by simp
    show "\<forall>i < length (sources ?rec).
            dispatchEntry.type (sources ?rec ! i) = powerSource.type
                (filter dispatchable srcs ! i)
          \<and> powerCurtailed (sources ?rec ! i)
              = jsub (availablePower fin (filter dispatchable srcs ! i) h)
                  (powerUsed (sources ?rec ! i))
          \<and> jle (Fin 0) (powerCurtailed (sources ?rec ! i))
          \<and> (Suc i < length (sources ?rec) \<longrightarrow>
                powerUsed (sources ?rec ! i) = availablePower fin (filter dispatchable srcs ! i)
                    h)"
      unfolding src by (rule es(7))
  qed
qed

lemma simulateHours_records:
  assumes step: "\<And>h sim. h \<in> set hs \<Longrightarrow>
      \<exists>rec. simulation.hourlyDispatch (dispatchHour el fin srcs h sim)
               = simulation.hourlyDispatch sim @ [rec] \<and> Q h rec"
  shows "\<exists>recs. simulation.hourlyDispatch (fold (dispatchHour el fin srcs) hs sim)
                  = simulation.hourlyDispatch sim @ recs
      \<and> length recs = length hs \<and> (\<forall>i < length hs. Q (hs ! i) (recs ! i))"
  using step
proof (induction hs arbitrary: sim)
  case Nil
  then show ?case by simp
next
  case (Cons h hs)
  from Cons.prems [of h sim] obtain rec where rec:
    "simulation.hourlyDispatch (dispatchHour el fin srcs h sim)
       = simulation.hourlyDispatch sim @ [rec]" "Q h rec"
    by auto
  have "\<And>h' sim'. h' \<in> set hs \<Longrightarrow>
      \<exists>rec. simulation.hourlyDispatch (dispatchHour el fin srcs h' sim')
               = simulation.hourlyDispatch sim' @ [rec] \<and> Q h' rec"
    using Cons.prems by simp
  from Cons.IH [OF this, of "dispatchHour el fin srcs h sim"]
  obtain recs where recs:
    "simulation.hourlyDispatch (fold (dispatchHour el fin srcs) hs
        (dispatchHour el fin srcs h sim))
       = simulation.hourlyDispatch (dispatchHour el fin srcs h sim) @ recs"
    "length recs = length hs" "\<forall>i < length hs. Q (hs ! i) (recs ! i)"
    by blast
  show ?case
  proof (rule exI [of _ "rec # recs"], intro conjI allI impI)
    show "simulation.hourlyDispatch (fold (dispatchHour el fin srcs) (h # hs) sim)
            = simulation.hourlyDispatch sim @ rec # recs"
      using recs(1) rec(1) by simp
    show "length (rec # recs) = length (h # hs)" using recs(2) by simp
    fix i
    assume "i < length (h # hs)"
    then show "Q ((h # hs) ! i) ((rec # recs) ! i)"
      using rec(2) recs(3) by (cases i) simp_all
  qed
qed

lemma simulateHours_hour:
  assumes step: "\<And>h sim. h < n \<Longrightarrow>
      \<exists>rec. simulation.hourlyDispatch (dispatchHour el fin srcs h sim)
               = simulation.hourlyDispatch sim @ [rec] \<and> Q h rec"
    and h: "h < n"
  shows "length (simulation.hourlyDispatch (simulateHours el fin srcs [0..<n])) = n
       \<and> Q h (simulation.hourlyDispatch (simulateHours el fin srcs [0..<n]) ! h)"
proof -
  have "\<And>h sim. h \<in> set [0..<n] \<Longrightarrow>
      \<exists>rec. simulation.hourlyDispatch (dispatchHour el fin srcs h sim)
               = simulation.hourlyDispatch sim @ [rec] \<and> Q h rec"
    using step by (simp only: set_upt atLeastLessThan_iff)
  from simulateHours_records [of "[0..<n]" el fin srcs Q initialSimulation, OF this]
  obtain recs where recs:
    "simulation.hourlyDispatch (fold (dispatchHour el fin srcs) [0..<n] initialSimulation)
       = simulation.hourlyDispatch initialSimulation @ recs"
    "length recs = length [0..<n]" "\<forall>i < length [0..<n]. Q ([0..<n] ! i) (recs ! i)"
    by blast
  have eq: "simulation.hourlyDispatch (simulateHours el fin srcs [0..<n]) = recs"
    using recs(1) by (simp add: simulateHours_def initialSimulation_def)
  have len: "length recs = n" using recs(2) by (simp only: length_upt diff_zero)
  have "Q ([0..<n] ! h) (recs ! h)" using recs(3) h by (simp only: length_upt diff_zero)
  moreover have "[0..<n] ! h = h" using h by (simp only: nth_upt add_0)
  ultimately show ?thesis using eq len by simp
qed

subsection \<open>Merit order\<close>

lemma truthy_not_NaN: "truthy a \<Longrightarrow> a \<noteq> NaN"
  by (cases a) simp_all

lemma jlt_jsub: "a \<noteq> NaN \<Longrightarrow> b \<noteq> NaN \<Longrightarrow> jlt (jsub a b) (Fin 0) = jlt a b"
  by (cases a; cases b) (simp_all add: jsub_def)

lemma jlt_imp_jle: "jlt a b \<Longrightarrow> jle a b"
  by (cases a; cases b) simp_all

lemma not_jlt_imp_jle: "a \<noteq> NaN \<Longrightarrow> b \<noteq> NaN \<Longrightarrow> \<not> jlt a b \<Longrightarrow> jle b a"
  by (cases a; cases b) simp_all

lemma jle_trans: "jle a b \<Longrightarrow> jle b c \<Longrightarrow> jle a c"
  by (cases a; cases b; cases c) simp_all

lemma compareSources_falsy: "\<not> dispatchable x \<Longrightarrow> compareSources x y = Fin 1"
  by (cases "lcoe x") (simp_all add: compareSources_def dispatchable_def)

lemma compareSources_before_falsy:
  "dispatchable x \<Longrightarrow> \<not> dispatchable y \<Longrightarrow> compareSources x y = Fin (- 1)"
  by (cases "lcoe x"; cases "lcoe y") (simp_all add: compareSources_def dispatchable_def)

lemma compareSources_both:
  "lcoe x = Some la \<Longrightarrow> truthy la \<Longrightarrow> lcoe y = Some lb \<Longrightarrow> truthy lb \<Longrightarrow>
   jlt (compareSources x y) (Fin 0) = jlt la lb"
  by (simp add: compareSources_def jlt_jsub truthy_not_NaN)

lemma dispatchable_lcoe: "dispatchable x \<Longrightarrow> \<exists>l. lcoe x = Some l \<and> truthy l"
  by (cases "lcoe x") (simp_all add: dispatchable_def)

lemma set_insertSource: "set (insertSource x ys) = insert x (set ys)"
  by (induction ys) auto

lemma mset_insertSource: "mset (insertSource x ys) = add_mset x (mset ys)"
  by (induction ys) auto

lemma mset_fold_insertSource: "mset (fold insertSource xs acc) = mset xs + mset acc"
  by (induction xs arbitrary: acc) (simp_all add: mset_insertSource)

lemma mset_sortSources: "mset (sortSources xs) = mset xs"
  by (simp add: sortSources_def mset_fold_insertSource)

lemma insertSource_falsy: "\<not> dispatchable x \<Longrightarrow> insertSource x ys = ys @ [x]"
  by (induction ys) (simp_all add: compareSources_falsy)

lemma insertSource_split:
  "dispatchable x \<Longrightarrow> \<forall>n \<in> set ns. \<not> dispatchable n \<Longrightarrow>
   insertSource x (ds @ ns) = insertSource x ds @ ns"
proof (induction ds)
  case Nil
  then show ?case by (cases ns) (simp_all add: compareSources_before_falsy)
next
  case (Cons d ds)
  then show ?case by simp
qed

lemma sorted_insertSource:
  assumes "dispatchable x" and "\<forall>d \<in> set ds. dispatchable d"
    and "sorted_wrt (\<lambda>a b. \<exists>la lb. lcoe a = Some la \<and> lcoe b = Some lb \<and> jle la lb) ds"
  shows "sorted_wrt (\<lambda>a b. \<exists>la lb. lcoe a = Some la \<and> lcoe b = Some lb \<and> jle la lb)
           (insertSource x ds)"
  using assms(2,3)
proof (induction ds)
  case Nil
  then show ?case by simp
next
  case (Cons y ds)
  from assms(1) obtain lx where lx: "lcoe x = Some lx" "truthy lx"
    using dispatchable_lcoe by blast
  from Cons.prems have "dispatchable y" by simp
  then obtain ly where ly: "lcoe y = Some ly" "truthy ly"
    using dispatchable_lcoe by blast
  have cmp: "jlt (compareSources x y) (Fin 0) = jlt lx ly"
    using lx ly by (rule compareSources_both)
  show ?case
  proof (cases "jlt lx ly")
    case True
    then have xy: "jle lx ly" by (rule jlt_imp_jle)
    have "\<exists>la lb. lcoe x = Some la \<and> lcoe z = Some lb \<and> jle la lb" if "z \<in> set (y # ds)" for z
    proof (cases "z = y")
      case True
      with lx ly xy show ?thesis by simp
    next
      case False
      with that Cons.prems(2) obtain lb where "lcoe z = Some lb" "jle ly lb"
        using ly by auto
      with lx xy jle_trans show ?thesis by blast
    qed
    with Cons.prems(2) True cmp show ?thesis by simp
  next
    case False
    then have yx: "jle ly lx"
      using lx ly by (intro not_jlt_imp_jle truthy_not_NaN)
    have "sorted_wrt (\<lambda>a b. \<exists>la lb. lcoe a = Some la \<and> lcoe b = Some lb \<and> jle la lb)
            (insertSource x ds)"
      using Cons by simp
    moreover have "\<exists>la lb. lcoe y = Some la \<and> lcoe z = Some lb \<and> jle la lb"
      if "z \<in> set (insertSource x ds)" for z
      using that Cons.prems(2) lx ly yx by (auto simp: set_insertSource)
    ultimately show ?thesis using False cmp by simp
  qed
qed

lemma insertSource_merit:
  assumes "ys = ds @ ns" and "\<forall>d \<in> set ds. dispatchable d" and "\<forall>n \<in> set ns. \<not> dispatchable n"
    and "sorted_wrt (\<lambda>a b. \<exists>la lb. lcoe a = Some la \<and> lcoe b = Some lb \<and> jle la lb) ds"
  shows "\<exists>ds' ns'. insertSource x ys = ds' @ ns'
      \<and> (\<forall>d \<in> set ds'. dispatchable d) \<and> (\<forall>n \<in> set ns'. \<not> dispatchable n)
      \<and> sorted_wrt (\<lambda>a b. \<exists>la lb. lcoe a = Some la \<and> lcoe b = Some lb \<and> jle la lb) ds'"
proof (cases "dispatchable x")
  case True
  have "insertSource x ys = insertSource x ds @ ns"
    unfolding assms(1) using True assms(3) by (rule insertSource_split)
  moreover have "\<forall>d \<in> set (insertSource x ds). dispatchable d"
    using True assms(2) by (simp add: set_insertSource)
  moreover note assms(3) sorted_insertSource [OF True assms(2,4)]
  ultimately show ?thesis by blast
next
  case False
  then have "insertSource x ys = ds @ (ns @ [x])"
    by (simp add: insertSource_falsy assms(1))
  moreover have "\<forall>n \<in> set (ns @ [x]). \<not> dispatchable n"
    using False assms(3) by simp
  moreover note assms(2,4)
  ultimately show ?thesis by blast
qed

lemma fold_insertSource_merit:
  assumes "\<exists>ds ns. acc = ds @ ns
      \<and> (\<forall>d \<in> set ds. dispatchable d) \<and> (\<forall>n \<in> set ns. \<not> dispatchable n)
      \<and> sorted_wrt (\<lambda>a b. \<exists>la lb. lcoe a = Some la \<and> lcoe b = Some lb \<and> jle la lb) ds"
  shows "\<exists>ds ns. fold insertSource xs acc = ds @ ns
      \<and> (\<forall>d \<in> set ds. dispatchable d) \<and> (\<forall>n \<in> set ns. \<not> dispatchable n)
      \<and> sorted_wrt (\<lambda>a b. \<exists>la lb. lcoe a = Some la \<and> lcoe b = Some lb \<and> jle la lb) ds"
  using assms
proof (induction xs arbitrary: acc)
  case Nil
  then show ?case by simp
next
  case (Cons x xs)
  from Cons.prems obtain ds ns where "acc = ds @ ns"
      "\<forall>d \<in> set ds. dispatchable d" "\<forall>n \<in> set ns. \<not> dispatchable n"
      "sorted_wrt (\<lambda>a b. \<exists>la lb. lcoe a = Some la \<and> lcoe b = Some lb \<and> jle la lb) ds"
    by blast
  from insertSource_merit [OF this] Cons.IH [of "insertSource x acc"] show ?case
    by simp
qed

lemma sortSources_merit:
  "sortSources xs = filter dispatchable (sortSources xs)
                      @ filter (\<lambda>s. \<not> dispatchable s) (sortSources xs)
   \<and> sorted_wrt (\<lambda>a b. \<exists>la lb. lcoe a = Some la \<and> lcoe b = Some lb \<and> jle la lb)
       (filter dispatchable (sortSources xs))"
proof -
  have "\<exists>ds ns. [] = ds @ ns
      \<and> (\<forall>d \<in> set ds. dispatchable d) \<and> (\<forall>n \<in> set ns. \<not> dispatchable n)
      \<and> sorted_wrt (\<lambda>a b. \<exists>la lb. lcoe a = Some la \<and> lcoe b = Some lb \<and> jle la lb) ds"
    by simp
  from fold_insertSource_merit [OF this, of xs]
  obtain ds ns where s: "sortSources xs = ds @ ns"
      "\<forall>d \<in> set ds. dispatchable d" "\<forall>n \<in> set ns. \<not> dispatchable n"
      "sorted_wrt (\<lambda>a b. \<exists>la lb. lcoe a = Some la \<and> lcoe b = Some lb \<and> jle la lb) ds"
    unfolding sortSources_def by blast
  have "filter dispatchable (ds @ ns) = ds"
    using s(2,3) by (simp add: filter_id_conv filter_empty_conv)
  moreover have "filter (\<lambda>s. \<not> dispatchable s) (ds @ ns) = ns"
    using s(2,3) by (simp add: filter_id_conv filter_empty_conv)
  ultimately show ?thesis
    unfolding s(1) using s(4) by simp
qed

subsection \<open>The record of an hour\<close>

lemma sourceLoop_local:
  assumes "remainingDemand st = remainingDemand st'"
    and "hourlyEnergyUsed st = hourlyEnergyUsed st'"
    and "hourlyCurtailed st = hourlyCurtailed st'"
    and "sourceDispatch st = sourceDispatch st'"
  shows "remainingDemand (sourceLoop fin h srcs st) = remainingDemand (sourceLoop fin h srcs st')
       \<and> hourlyEnergyUsed (sourceLoop fin h srcs st) = hourlyEnergyUsed
           (sourceLoop fin h srcs st')
       \<and> hourlyCurtailed (sourceLoop fin h srcs st) = hourlyCurtailed (sourceLoop fin h srcs st')
       \<and> sourceDispatch (sourceLoop fin h srcs st) = sourceDispatch (sourceLoop fin h srcs st')"
  using assms
proof (induction srcs arbitrary: st st')
  case Nil
  then show ?case by simp
next
  case (Cons s rest)
  have "remainingDemand (dispatchSource fin h s st) = remainingDemand
      (dispatchSource fin h s st')"
    "hourlyEnergyUsed (dispatchSource fin h s st) = hourlyEnergyUsed (dispatchSource fin h s st')"
    "hourlyCurtailed (dispatchSource fin h s st) = hourlyCurtailed (dispatchSource fin h s st')"
    "sourceDispatch (dispatchSource fin h s st) = sourceDispatch (dispatchSource fin h s st')"
    using Cons.prems by (simp_all add: dispatchSource_def Let_def)
  from Cons.IH [OF this] Cons.IH [OF Cons.prems] Cons.prems show ?case
    by simp
qed

lemma dispatchHour_same_record:
  "simulation.hourlyDispatch (dispatchHour el fin srcs h sim)
     = simulation.hourlyDispatch sim
       @ [last (simulation.hourlyDispatch (dispatchHour el fin srcs h initialSimulation))]"
proof -
  let ?reset = "\<lambda>s. s\<lparr>hourlyEnergyUsed := Fin 0, hourlyCurtailed := Fin 0,
                      sourceDispatch := [], remainingDemand := electrolyzer.capacity el\<rparr>"
  have "remainingDemand (sourceLoop fin h srcs (?reset sim))
          = remainingDemand (sourceLoop fin h srcs (?reset initialSimulation))
       \<and> hourlyEnergyUsed (sourceLoop fin h srcs (?reset sim))
          = hourlyEnergyUsed (sourceLoop fin h srcs (?reset initialSimulation))
       \<and> hourlyCurtailed (sourceLoop fin h srcs (?reset sim))
          = hourlyCurtailed (sourceLoop fin h srcs (?reset initialSimulation))
       \<and> sourceDispatch (sourceLoop fin h srcs (?reset sim))
          = sourceDispatch (sourceLoop fin h srcs (?reset initialSimulation))"
    by (rule sourceLoop_local) simp_all
  moreover have "simulation.hourlyDispatch (sourceLoop fin h srcs (?reset sim))
                   = simulation.hourlyDispatch sim"
    using sourceLoop_frame [of fin h srcs "?reset sim"] by simp
  ultimately show ?thesis
    by (simp add: dispatchHour_def Let_def)
qed

lemma simulateHours_nth:
  assumes "h < n"
  shows "simulation.hourlyDispatch (simulateHours el fin srcs [0..<n]) ! h
           = last (simulation.hourlyDispatch (dispatchHour el fin srcs h initialSimulation))"
proof -
  have "\<exists>rec. simulation.hourlyDispatch (dispatchHour el fin srcs h' sim)
               = simulation.hourlyDispatch sim @ [rec]
             \<and> rec = last (simulation.hourlyDispatch
                             (dispatchHour el fin srcs h' initialSimulation))"
    for h' sim
    using dispatchHour_same_record [of el fin srcs h' sim] by simp
  from simulateHours_hour [of n el fin srcs
      "\<lambda>h rec. rec = last (simulation.hourlyDispatch
                             (dispatchHour el fin srcs h initialSimulation))" h,
      OF this assms]
  show ?thesis by simp
qed

lemma hour_record:
  assumes cap: "electrolyzer.capacity (electrolyzer inp) = Fin c" and c: "0 < c"
    and caps: "\<forall>s \<in> set (powerSources inp). \<exists>k. powerSource.capacity s = Fin k \<and> 0 < k"
    and series: "\<forall>s \<in> set (powerSources inp). \<forall>ts. timeSeriesData s = Some ts \<longrightarrow>
           (\<forall>v \<in> set ts. \<exists>x. v = Number (Fin x) \<and> 0 \<le> x \<and> x \<le> 1)"
    and dflt: "capacityFactor (financial inp) = Fin p" and p: "0 \<le> p" "p \<le> 100"
    and h: "h < 8760"
  shows "length (simulation.hourlyDispatch (simulateDispatch inp)) = 8760
       \<and> hour (simulation.hourlyDispatch (simulateDispatch inp) ! h) = h
      \<and> length (sources (simulation.hourlyDispatch (simulateDispatch inp) ! h)) \<le> length
          (filter dispatchable (sortSources (updatedSources inp)))
      \<and> energyUsed (simulation.hourlyDispatch (simulateDispatch inp) ! h) = fold
          (\<lambda>e acc. jadd acc (powerUsed e))
          (sources (simulation.hourlyDispatch (simulateDispatch inp) ! h)) (Fin 0)
      \<and> jle (energyUsed (simulation.hourlyDispatch (simulateDispatch inp) ! h)) (Fin c)
      \<and> (\<forall>i < length (sources (simulation.hourlyDispatch (simulateDispatch inp) ! h)).
            dispatchEntry.type (sources (simulation.hourlyDispatch (simulateDispatch inp) ! h) !
                i) = powerSource.type ((filter dispatchable (sortSources (updatedSources inp))) !
                i)
          \<and> powerCurtailed (sources (simulation.hourlyDispatch (simulateDispatch inp) ! h) ! i)
              = jsub (availablePower (financial inp)
                  ((filter dispatchable (sortSources (updatedSources inp))) ! i) h)
                  (powerUsed (sources (simulation.hourlyDispatch (simulateDispatch inp) ! h) ! i))
          \<and> jle (Fin 0) (powerCurtailed (sources
              (simulation.hourlyDispatch (simulateDispatch inp) ! h) ! i))
          \<and> (Suc i < length (sources (simulation.hourlyDispatch (simulateDispatch inp) ! h)) \<longrightarrow>
                powerUsed (sources (simulation.hourlyDispatch (simulateDispatch inp) ! h) ! i) =
                    availablePower (financial inp) ((filter dispatchable
                    (sortSources (updatedSources inp))) ! i) h))"
proof -
  have set_sorted: "set (sortSources (updatedSources inp)) = set (updatedSources inp)"
    using mset_sortSources [of "updatedSources inp"] by (metis set_mset_mset)
  have av: "\<forall>s \<in> set (sortSources (updatedSources inp)). \<exists>a. availablePower (financial inp) s h' =
      Fin a \<and> 0 \<le> a" for h'
  proof
    fix s
    assume "s \<in> set (sortSources (updatedSources inp))"
    then have "s \<in> set (updatedSources inp)"
      unfolding set_sorted .
    then obtain s0 where s0: "s0 \<in> set (powerSources inp)" "s = updateSource (financial inp) s0"
      by (auto simp: updatedSources_def)
    from caps s0(1) obtain k where k: "powerSource.capacity s0 = Fin k" "0 < k" by blast
    from series s0(1) have ts: "\<forall>ts. timeSeriesData s0 = Some ts \<longrightarrow>
           (\<forall>v \<in> set ts. \<exists>x. v = Number (Fin x) \<and> 0 \<le> x \<and> x \<le> 1)" by blast
    from availablePower_finite [OF k dflt p ts, of h']
    show "\<exists>a. availablePower (financial inp) s h' = Fin a \<and> 0 \<le> a"
      unfolding s0(2) availablePower_updateSource .
  qed
  have c0: "0 \<le> c" using c by simp
  have step: "\<exists>rec. simulation.hourlyDispatch
                 (dispatchHour (electrolyzer inp) (financial inp)
                     (sortSources (updatedSources inp)) h' sim)
               = simulation.hourlyDispatch sim @ [rec] \<and> hour rec = h'
      \<and> length (sources rec) \<le> length (filter dispatchable (sortSources (updatedSources inp)))
      \<and> energyUsed rec = fold (\<lambda>e acc. jadd acc (powerUsed e)) (sources rec) (Fin 0)
      \<and> jle (energyUsed rec) (Fin c)
      \<and> (\<forall>i < length (sources rec).
            dispatchEntry.type (sources rec ! i) = powerSource.type
                ((filter dispatchable (sortSources (updatedSources inp))) ! i)
          \<and> powerCurtailed (sources rec ! i)
              = jsub (availablePower (financial inp)
                  ((filter dispatchable (sortSources (updatedSources inp))) ! i) h')
                  (powerUsed (sources rec ! i))
          \<and> jle (Fin 0) (powerCurtailed (sources rec ! i))
          \<and> (Suc i < length (sources rec) \<longrightarrow>
                powerUsed (sources rec ! i) = availablePower (financial inp)
                    ((filter dispatchable (sortSources (updatedSources inp))) ! i) h'))"
    for h' sim
    by (rule dispatchHour_record [OF av cap c0])
  from simulateHours_hour [of 8760 "electrolyzer inp" "financial inp" "sortSources
      (updatedSources inp)"
      "\<lambda>h' rec. hour rec = h'
      \<and> length (sources rec) \<le> length (filter dispatchable (sortSources (updatedSources inp)))
      \<and> energyUsed rec = fold (\<lambda>e acc. jadd acc (powerUsed e)) (sources rec) (Fin 0)
      \<and> jle (energyUsed rec) (Fin c)
      \<and> (\<forall>i < length (sources rec).
            dispatchEntry.type (sources rec ! i) = powerSource.type
                ((filter dispatchable (sortSources (updatedSources inp))) ! i)
          \<and> powerCurtailed (sources rec ! i)
              = jsub (availablePower (financial inp)
                  ((filter dispatchable (sortSources (updatedSources inp))) ! i) h')
                  (powerUsed (sources rec ! i))
          \<and> jle (Fin 0) (powerCurtailed (sources rec ! i))
          \<and> (Suc i < length (sources rec) \<longrightarrow>
                powerUsed (sources rec ! i) = availablePower (financial inp)
                    ((filter dispatchable (sortSources (updatedSources inp))) ! i) h'))" h, OF
                    step h]
  show ?thesis
    unfolding simulateDispatch_def .
qed

subsection \<open>The entries of an hour in merit order\<close>

lemma example_record:
  "(simulation.hourlyDispatch (simulateDispatch exampleInputs) ! 5) =
     \<lparr>hour = 5, energyUsed = Fin 100, curtailedEnergy = Fin 60, dispatchPercentage = Fin 1,
      sources = [\<lparr>dispatchEntry.type = Solar, powerUsed = Fin 60, powerCurtailed = Fin 0\<rparr>,
                 \<lparr>dispatchEntry.type = Grid, powerUsed = Fin 40, powerCurtailed = Fin 60\<rparr>]\<rparr>"
proof -
  have "(simulation.hourlyDispatch (simulateDispatch exampleInputs) ! 5) =
      last (simulation.hourlyDispatch
              (dispatchHour (electrolyzer exampleInputs) (financial exampleInputs)
                 (sortSources (updatedSources exampleInputs)) 5 initialSimulation))"
    unfolding simulateDispatch_def by (rule simulateHours_nth) simp
  also have "\<dots> =
     \<lparr>hour = 5, energyUsed = Fin 100, curtailedEnergy = Fin 60, dispatchPercentage = Fin 1,
      sources = [\<lparr>dispatchEntry.type = Solar, powerUsed = Fin 60, powerCurtailed = Fin 0\<rparr>,
                 \<lparr>dispatchEntry.type = Grid, powerUsed = Fin 40, powerCurtailed = Fin 60\<rparr>]\<rparr>"
    by (simp add: exampleInputs_def solarWithProfile_def initialInputs_def initialGrid_def
        initialSolar_def initialWind_def updatedSources_def updateSource_def sortSources_def
        compareSources_def dispatchable_def jsub_def dispatchHour_def dispatchSource_def
        availablePower_def capacityFactorAt_def addEnergy_def initialSimulation_def Let_def)
  finally show ?thesis .
qed

text \<open>
  C3. The sorted list is a permutation of the sources in which the dispatchable ones
  (truthy \<open>lcoe\<close>) come first, in ascending order of \<open>lcoe\<close>, and every source with a
  \<open>null\<close>, zero or NaN \<open>lcoe\<close> comes after them. Under the conditions of C2, the entries
  of an hour are those of the first dispatchable sources in that order (the others are
  skipped), and every source before the one that received the last allocation is used
  in full: \<open>powerUsed\<close> equals its available power.
\<close>

theorem dispatch_merit_order:
  assumes cap: "electrolyzer.capacity (electrolyzer inp) = Fin c" and c: "0 < c"
    and caps: "\<forall>s \<in> set (powerSources inp). \<exists>k. powerSource.capacity s = Fin k \<and> 0 < k"
    and series: "\<forall>s \<in> set (powerSources inp). \<forall>ts. timeSeriesData s = Some ts \<longrightarrow>
           (\<forall>v \<in> set ts. \<exists>x. v = Number (Fin x) \<and> 0 \<le> x \<and> x \<le> 1)"
    and dflt: "capacityFactor (financial inp) = Fin p" and p: "0 \<le> p" "p \<le> 100"
    and h: "h < 8760"
  shows "mset (sortSources (updatedSources inp)) = mset (updatedSources inp)
       \<and> (sortSources (updatedSources inp)) =
           (filter dispatchable (sortSources (updatedSources inp))) @ filter
           (\<lambda>s. \<not> dispatchable s) (sortSources (updatedSources inp))
       \<and> sorted_wrt (\<lambda>a b. \<exists>la lb. lcoe a = Some la \<and> lcoe b = Some lb \<and> jle la lb)
           (filter dispatchable (sortSources (updatedSources inp)))
       \<and> length (sources (simulation.hourlyDispatch (simulateDispatch inp) ! h)) \<le> length
           (filter dispatchable (sortSources (updatedSources inp)))
       \<and> (\<forall>j < length (sources (simulation.hourlyDispatch (simulateDispatch inp) ! h)).
             dispatchEntry.type (sources (simulation.hourlyDispatch (simulateDispatch inp) ! h) !
                 j) = powerSource.type ((filter dispatchable (sortSources (updatedSources inp))) !
                 j)
           \<and> (\<forall>i < j. powerUsed (sources (simulation.hourlyDispatch (simulateDispatch inp) ! h) !
               i) = availablePower (financial inp)
               ((filter dispatchable (sortSources (updatedSources inp))) ! i) h))"
proof -
  from hour_record [OF cap c caps series dflt p h]
  have rec: "hour (simulation.hourlyDispatch (simulateDispatch inp) ! h) = h
      \<and> length (sources (simulation.hourlyDispatch (simulateDispatch inp) ! h)) \<le> length
          (filter dispatchable (sortSources (updatedSources inp)))
      \<and> energyUsed (simulation.hourlyDispatch (simulateDispatch inp) ! h) = fold
          (\<lambda>e acc. jadd acc (powerUsed e))
          (sources (simulation.hourlyDispatch (simulateDispatch inp) ! h)) (Fin 0)
      \<and> jle (energyUsed (simulation.hourlyDispatch (simulateDispatch inp) ! h)) (Fin c)
      \<and> (\<forall>i < length (sources (simulation.hourlyDispatch (simulateDispatch inp) ! h)).
            dispatchEntry.type (sources (simulation.hourlyDispatch (simulateDispatch inp) ! h) !
                i) = powerSource.type ((filter dispatchable (sortSources (updatedSources inp))) !
                i)
          \<and> powerCurtailed (sources (simulation.hourlyDispatch (simulateDispatch inp) ! h) ! i)
              = jsub (availablePower (financial inp)
                  ((filter dispatchable (sortSources (updatedSources inp))) ! i) h)
                  (powerUsed (sources (simulation.hourlyDispatch (simulateDispatch inp) ! h) ! i))
          \<and> jle (Fin 0) (powerCurtailed (sources
              (simulation.hourlyDispatch (simulateDispatch inp) ! h) ! i))
          \<and> (Suc i < length (sources (simulation.hourlyDispatch (simulateDispatch inp) ! h)) \<longrightarrow>
                powerUsed (sources (simulation.hourlyDispatch (simulateDispatch inp) ! h) ! i) =
                    availablePower (financial inp) ((filter dispatchable
                    (sortSources (updatedSources inp))) ! i) h))" by blast
  have full: "powerUsed (sources (simulation.hourlyDispatch (simulateDispatch inp) ! h) ! i) =
      availablePower (financial inp) ((filter dispatchable (sortSources (updatedSources inp))) !
      i) h"
    if "j < length (sources (simulation.hourlyDispatch (simulateDispatch inp) ! h))" "i < j" for i
        j
  proof -
    from that have "i < length (sources (simulation.hourlyDispatch (simulateDispatch inp) ! h))"
        "Suc i < length (sources (simulation.hourlyDispatch (simulateDispatch inp) ! h))" by
        simp_all
    with rec show ?thesis by blast
  qed
  from sortSources_merit [of "updatedSources inp"] mset_sortSources [of "updatedSources inp"]
    rec full show ?thesis by blast
qed

theorem dispatch_merit_order_witness:
  "electrolyzer.capacity (electrolyzer exampleInputs) = Fin 100 \<and> (0 :: real) < 100
   \<and> list_all (\<lambda>s. \<exists>k. powerSource.capacity s = Fin k \<and> 0 < k) (powerSources exampleInputs)
   \<and> capacityFactor (financial exampleInputs) = Fin 90 \<and> (5 :: nat) < 8760
   \<and> sortSources (updatedSources exampleInputs) = [solarWithProfile, initialGrid, initialWind]
   \<and> (1 :: nat) < length (sources (simulation.hourlyDispatch (simulateDispatch exampleInputs) !
       5)) \<and> (0 :: nat) < 1
   \<and> dispatchEntry.type (sources (simulation.hourlyDispatch (simulateDispatch exampleInputs) ! 5)
       ! 1) = powerSource.type ((filter dispatchable (sortSources (updatedSources exampleInputs)))
       ! 1)
   \<and> powerUsed (sources (simulation.hourlyDispatch (simulateDispatch exampleInputs) ! 5) ! 0) =
       availablePower (financial exampleInputs)
       ((filter dispatchable (sortSources (updatedSources exampleInputs))) ! 0) 5
   \<and> powerUsed (sources (simulation.hourlyDispatch (simulateDispatch exampleInputs) ! 5) ! 0) =
       Fin 60
   \<and> powerUsed (sources (simulation.hourlyDispatch (simulateDispatch exampleInputs) ! 5) ! 1) =
       Fin 40"
proof -
  have cap: "electrolyzer.capacity (electrolyzer exampleInputs) = Fin 100"
    by (simp add: exampleInputs_def initialInputs_def)
  have caps: "\<forall>s \<in> set (powerSources exampleInputs). \<exists>k. powerSource.capacity s = Fin k \<and> 0 < k"
    by (simp add: exampleInputs_def solarWithProfile_def initialGrid_def initialSolar_def
        initialWind_def)
  have series: "\<forall>s \<in> set (powerSources exampleInputs). \<forall>ts. timeSeriesData s = Some ts \<longrightarrow>
           (\<forall>v \<in> set ts. \<exists>x. v = Number (Fin x) \<and> 0 \<le> x \<and> x \<le> 1)"
    using exI [of "\<lambda>x :: real. Number (Fin (2 / 5)) = Number (Fin x) \<and> 0 \<le> x \<and> x \<le> 1" "2 / 5"]
    by (simp add: exampleInputs_def solarWithProfile_def initialGrid_def initialSolar_def
        initialWind_def)
  have dflt: "capacityFactor (financial exampleInputs) = Fin 90"
    by (simp add: exampleInputs_def initialInputs_def)
  have c: "(0 :: real) < 100" and p: "(0 :: real) \<le> 90" "(90 :: real) \<le> 100"
    and h: "(5 :: nat) < 8760"
    by simp_all
  note inst = dispatch_merit_order [OF cap c caps series dflt p h]
  have len: "(1 :: nat) < length (sources
      (simulation.hourlyDispatch (simulateDispatch exampleInputs) ! 5))"
    unfolding example_record by simp
  have lt: "(0 :: nat) < 1" by simp
  note entry = inst [THEN conjunct2, THEN conjunct2, THEN conjunct2, THEN conjunct2,
      rule_format, OF len]
  show ?thesis
  proof (intro conjI)
    show "list_all (\<lambda>s. \<exists>k. powerSource.capacity s = Fin k \<and> 0 < k) (powerSources exampleInputs)"
      unfolding list_all_iff by (rule caps)
    show "sortSources (updatedSources exampleInputs) =
        [solarWithProfile, initialGrid, initialWind]"
      by (simp add: exampleInputs_def solarWithProfile_def initialInputs_def initialGrid_def
          initialSolar_def initialWind_def updatedSources_def updateSource_def sortSources_def
          compareSources_def dispatchable_def jsub_def)
    show "dispatchEntry.type (sources
        (simulation.hourlyDispatch (simulateDispatch exampleInputs) ! 5) ! 1) = powerSource.type
        ((filter dispatchable (sortSources (updatedSources exampleInputs))) ! 1)"
      by (rule entry [THEN conjunct1])
    show "powerUsed (sources (simulation.hourlyDispatch (simulateDispatch exampleInputs) ! 5) ! 0)
        = availablePower (financial exampleInputs)
        ((filter dispatchable (sortSources (updatedSources exampleInputs))) ! 0) 5"
      by (rule entry [THEN conjunct2, rule_format, OF lt])
    show "powerUsed (sources (simulation.hourlyDispatch (simulateDispatch exampleInputs) ! 5) ! 0)
        = Fin 60"
      unfolding example_record by simp
    show "powerUsed (sources (simulation.hourlyDispatch (simulateDispatch exampleInputs) ! 5) ! 1)
        = Fin 40"
      unfolding example_record by simp
  qed (rule cap c dflt h len lt)+
qed

subsection \<open>Sources with a zero \<open>lcoe\<close>\<close>

lemma sourceLoop_skip:
  "\<not> dispatchable s \<Longrightarrow>
   sourceLoop fin h (pre @ s # post) st = sourceLoop fin h (pre @ post) st"
  by (induction pre arbitrary: st) (simp_all add: dispatchable_def sourceLoop_stop)

lemma simulateHours_skip:
  assumes "\<not> dispatchable s"
  shows "simulateHours el fin (pre @ s # post) hs = simulateHours el fin (pre @ post) hs"
proof -
  have "dispatchHour el fin (pre @ s # post) = dispatchHour el fin (pre @ post)"
    by (intro ext) (simp add: dispatchHour_def sourceLoop_skip [OF assms])
  then show ?thesis by (simp add: simulateHours_def)
qed

lemma nullify_fields:
  "powerSource.type ((\<lambda>x. if lcoe x = Some (Fin 0) then x\<lparr>lcoe := None\<rparr> else x) x) =
      powerSource.type x"
  "powerSource.capacity ((\<lambda>x. if lcoe x = Some (Fin 0) then x\<lparr>lcoe := None\<rparr> else x) x) =
      powerSource.capacity x"
  "timeSeriesData ((\<lambda>x. if lcoe x = Some (Fin 0) then x\<lparr>lcoe := None\<rparr> else x) x) = timeSeriesData
      x"
  "truthyLcoe (lcoe ((\<lambda>x. if lcoe x = Some (Fin 0) then x\<lparr>lcoe := None\<rparr> else x) x)) = truthyLcoe
      (lcoe x)"
  by simp_all

lemma nullify_dispatchSource:
  "dispatchSource fin h ((\<lambda>x. if lcoe x = Some (Fin 0) then x\<lparr>lcoe := None\<rparr> else x) x) st =
      dispatchSource fin h x st"
  unfolding dispatchSource_def availablePower_def capacityFactorAt_def
  by (simp only: nullify_fields)

lemma nullify_sourceLoop:
  "sourceLoop fin h (map (\<lambda>x. if lcoe x = Some (Fin 0) then x\<lparr>lcoe := None\<rparr> else x) srcs) st =
      sourceLoop fin h srcs st"
proof (induction srcs arbitrary: st)
  case Nil
  show ?case by simp
next
  case (Cons x xs)
  show ?case
    by (simp only: list.map sourceLoop.simps Cons.IH nullify_fields(4) nullify_dispatchSource)
qed

lemma nullify_compareSources:
  "compareSources ((\<lambda>x. if lcoe x = Some (Fin 0) then x\<lparr>lcoe := None\<rparr> else x) a)
      ((\<lambda>x. if lcoe x = Some (Fin 0) then x\<lparr>lcoe := None\<rparr> else x) b) = compareSources a b"
  by (cases "lcoe a"; cases "lcoe b") (simp_all add: compareSources_def)

lemma nullify_insertSource:
  "insertSource ((\<lambda>x. if lcoe x = Some (Fin 0) then x\<lparr>lcoe := None\<rparr> else x) x)
      (map (\<lambda>x. if lcoe x = Some (Fin 0) then x\<lparr>lcoe := None\<rparr> else x) ys) = map
      (\<lambda>x. if lcoe x = Some (Fin 0) then x\<lparr>lcoe := None\<rparr> else x) (insertSource x ys)"
proof (induction ys)
  case Nil
  show ?case by simp
next
  case (Cons y ys)
  show ?case
    using Cons.IH nullify_compareSources [of x y]
    by (simp split del: if_split) simp
qed

lemma nullify_fold_insertSource:
  "fold insertSource (map (\<lambda>x. if lcoe x = Some (Fin 0) then x\<lparr>lcoe := None\<rparr> else x) xs)
      (map (\<lambda>x. if lcoe x = Some (Fin 0) then x\<lparr>lcoe := None\<rparr> else x) acc) = map
      (\<lambda>x. if lcoe x = Some (Fin 0) then x\<lparr>lcoe := None\<rparr> else x) (fold insertSource xs acc)"
  by (induction xs arbitrary: acc) (simp_all only: list.map fold_simps nullify_insertSource)

lemma nullify_sortSources:
  "sortSources (map (\<lambda>x. if lcoe x = Some (Fin 0) then x\<lparr>lcoe := None\<rparr> else x) xs) = map
      (\<lambda>x. if lcoe x = Some (Fin 0) then x\<lparr>lcoe := None\<rparr> else x) (sortSources xs)"
  using nullify_fold_insertSource [of xs "[]"] by (simp add: sortSources_def)

lemma nullify_simulateHours:
  "simulateHours el fin (sortSources
      (map (\<lambda>x. if lcoe x = Some (Fin 0) then x\<lparr>lcoe := None\<rparr> else x) srcs)) hs = simulateHours el
      fin (sortSources srcs) hs"
proof -
  have "dispatchHour el fin (map (\<lambda>x. if lcoe x = Some (Fin 0) then x\<lparr>lcoe := None\<rparr> else x)
      (sortSources srcs)) = dispatchHour el fin (sortSources srcs)"
    by (intro ext) (simp only: dispatchHour_def nullify_sourceLoop)
  then show ?thesis by (simp only: simulateHours_def nullify_sortSources)
qed

lemma sortSources_falsy_last:
  assumes "s \<in> set srcs" and "\<not> dispatchable s"
  shows "\<exists>pre post. sortSources srcs = pre @ s # post \<and> (\<forall>t \<in> set post. \<not> dispatchable t)"
proof -
  let ?ds = "filter dispatchable (sortSources srcs)"
  let ?ns = "filter (\<lambda>s. \<not> dispatchable s) (sortSources srcs)"
  have split: "sortSources srcs = ?ds @ ?ns"
    using sortSources_merit [of srcs] by blast
  have "s \<in> set (sortSources srcs)"
    using assms(1) mset_sortSources [of srcs] by (metis set_mset_mset)
  with assms(2) have "s \<in> set ?ns" by simp
  then obtain n1 n2 where n: "?ns = n1 @ s # n2"
    by (meson split_list)
  have "\<forall>t \<in> set ?ns. \<not> dispatchable t" by simp
  then have "\<forall>t \<in> set n2. \<not> dispatchable t" unfolding n by simp
  moreover have "sortSources srcs = (?ds @ n1) @ s # n2"
    using split n by simp
  ultimately show ?thesis by blast
qed

text \<open>
  C10. A source whose \<open>lcoe\<close> is exactly 0 when the sources are sorted (a grid source
  keeps the \<open>lcoe\<close> it was given) is treated as one whose \<open>lcoe\<close> is \<open>null\<close>: in the sorted list only
      sources that are not dispatched come
  after it; removing it from the list the dispatch loop runs over changes nothing in
  the simulation, and neither does replacing every zero \<open>lcoe\<close> by \<open>null\<close> before
  sorting; and an entry of \<open>energyBySource\<close> priced with it adds nothing to the energy
  cost.
\<close>

theorem zero_lcoe_skipped:
  assumes "lcoe s = Some (Fin 0)"
  shows "(powerSource.type s = Grid \<longrightarrow> updateSource fin s = s)
   \<and> (s \<in> set srcs \<longrightarrow>
        (\<exists>pre post. sortSources srcs = pre @ s # post \<and> (\<forall>t \<in> set post. \<not> dispatchable t)))
   \<and> simulateHours el fin (pre @ s # post) hs = simulateHours el fin (pre @ post) hs
   \<and> simulateHours el fin (sortSources
       (map (\<lambda>x. if lcoe x = Some (Fin 0) then x\<lparr>lcoe := None\<rparr> else x) srcs)) hs
       = simulateHours el fin (sortSources srcs) hs
   \<and> (find (\<lambda>x. powerSource.type x = k) srcs = Some s \<longrightarrow>
        energyCostStep srcs (k, e) acc = acc)"
proof -
  have nd: "\<not> dispatchable s" using assms by (simp add: dispatchable_def)
  show ?thesis
  proof (intro conjI impI)
    assume "powerSource.type s = Grid"
    then show "updateSource fin s = s" by (simp add: updateSource_def)
  next
    assume "s \<in> set srcs"
    then show "\<exists>pre post. sortSources srcs = pre @ s # post
        \<and> (\<forall>t \<in> set post. \<not> dispatchable t)"
      using nd by (rule sortSources_falsy_last)
  next
    show "simulateHours el fin (pre @ s # post) hs = simulateHours el fin (pre @ post) hs"
      using nd by (rule simulateHours_skip)
  next
    show "simulateHours el fin (sortSources
        (map (\<lambda>x. if lcoe x = Some (Fin 0) then x\<lparr>lcoe := None\<rparr> else x) srcs)) hs
            = simulateHours el fin (sortSources srcs) hs"
      by (rule nullify_simulateHours)
  next
    assume "find (\<lambda>x. powerSource.type x = k) srcs = Some s"
    then show "energyCostStep srcs (k, e) acc = acc"
      using assms by (simp add: energyCostStep_def)
  qed
qed

theorem zero_lcoe_skipped_witness:
  "lcoe freeGrid = Some (Fin 0)
   \<and> powerSource.type freeGrid = Grid
   \<and> updateSource (financial initialInputs) freeGrid = freeGrid
   \<and> freeGrid \<in> set [freeGrid, solarWithProfile]
   \<and> sortSources [freeGrid, solarWithProfile] = [solarWithProfile] @ freeGrid # []
   \<and> simulateHours (electrolyzer initialInputs) (financial initialInputs)
        ([solarWithProfile] @ freeGrid # []) [0..<8760]
      = simulateHours (electrolyzer initialInputs) (financial initialInputs)
          ([solarWithProfile] @ []) [0..<8760]
   \<and> find (\<lambda>x. powerSource.type x = Grid) [freeGrid, solarWithProfile] = Some freeGrid
   \<and> energyCostStep [freeGrid, solarWithProfile] (Grid, Fin 7) (Fin 3) = Fin 3"
proof -
  have z: "lcoe freeGrid = Some (Fin 0)" by (simp add: freeGrid_def)
  note inst = zero_lcoe_skipped [OF z, where srcs = "[freeGrid, solarWithProfile]"
      and el = "electrolyzer initialInputs" and fin = "financial initialInputs"
      and pre = "[solarWithProfile]" and post = "[]" and hs = "[0..<8760]"
      and k = Grid and e = "Fin 7" and acc = "Fin 3"]
  have f: "find (\<lambda>x. powerSource.type x = Grid) [freeGrid, solarWithProfile] = Some freeGrid"
    by (simp add: freeGrid_def initialGrid_def)
  have g: "powerSource.type freeGrid = Grid" by (simp add: freeGrid_def initialGrid_def)
  show ?thesis
  proof (intro conjI)
    show "updateSource (financial initialInputs) freeGrid = freeGrid"
      using inst [THEN conjunct1] g by (rule mp)
    show "sortSources [freeGrid, solarWithProfile] = [solarWithProfile] @ freeGrid # []"
      by (simp add: sortSources_def compareSources_def freeGrid_def solarWithProfile_def
          initialGrid_def initialSolar_def)
    show "energyCostStep [freeGrid, solarWithProfile] (Grid, Fin 7) (Fin 3) = Fin 3"
      using inst [THEN conjunct2, THEN conjunct2, THEN conjunct2, THEN conjunct2] f by (rule mp)
    show "simulateHours (electrolyzer initialInputs) (financial initialInputs)
        ([solarWithProfile] @ freeGrid # []) [0..<8760]
      = simulateHours (electrolyzer initialInputs) (financial initialInputs)
          ([solarWithProfile] @ []) [0..<8760]"
      by (rule inst [THEN conjunct2, THEN conjunct2, THEN conjunct1])
    show "freeGrid \<in> set [freeGrid, solarWithProfile]" by simp
  qed (rule z f g)+
qed

section \<open>Conservation in the dispatch loop\<close>

subsection \<open>Rounding to binary64\<close>

text \<open>
  The exponent brackets the magnitude and grows with it, so the unit in the last place of
  a smaller number divides that of a larger one. Hence rounding never carries a number
  across a binary64 value: between 0 and a binary64 value \<open>a\<close> the rounded number stays
  between 0 and \<open>a\<close>, and it moves by at most half a unit in the last place of \<open>a\<close>.
\<close>

lemma exponentUp_bounds:
  "1 \<le> x \<Longrightarrow> e \<le> 1023 \<Longrightarrow>
   e \<le> exponentUp x e \<and> exponentUp x e \<le> 1023
   \<and> 2 powi (exponentUp x e - e) \<le> x
   \<and> (exponentUp x e < 1023 \<longrightarrow> x < 2 powi (exponentUp x e - e + 1))"
proof (induction x e rule: exponentUp.induct)
  case (1 x e)
  show ?case
  proof (cases "x < 2 \<or> 1023 \<le> e")
    case True
    then have "exponentUp x e = e" by (simp add: exponentUp.simps)
    with 1 True show ?thesis by auto
  next
    case False
    then have eq: "exponentUp x e = exponentUp (x / 2) (e + 1)"
      by (subst exponentUp.simps) simp
    from False 1 have "1 \<le> x / 2" "e + 1 \<le> 1023" by simp_all
    from 1(1) [OF False this]
    have ih: "e + 1 \<le> exponentUp x e" "exponentUp x e \<le> 1023"
      "2 powi (exponentUp x e - (e + 1)) \<le> x / 2"
      "exponentUp x e < 1023 \<longrightarrow> x / 2 < 2 powi (exponentUp x e - (e + 1) + 1)"
      unfolding eq by simp_all
    have p: "(2 :: real) powi (exponentUp x e - e) = 2 * 2 powi (exponentUp x e - (e + 1))"
      using power_int_add_1' [of "2 :: real" "exponentUp x e - (e + 1)"]
      by (simp add: algebra_simps)
    have q: "(2 :: real) powi (exponentUp x e - e + 1) = 2 * 2 powi (exponentUp x e - (e + 1) + 1)"
      using power_int_add_1' [of "2 :: real" "exponentUp x e - (e + 1) + 1"]
      by (simp add: algebra_simps)
    from ih show ?thesis unfolding p q by auto
  qed
qed

lemma exponentDown_bounds:
  "x < 2 \<Longrightarrow> - 1022 \<le> e \<Longrightarrow>
   - 1022 \<le> exponentDown x e \<and> exponentDown x e \<le> e
   \<and> x < 2 powi (exponentDown x e - e + 1)
   \<and> (- 1022 < exponentDown x e \<longrightarrow> 2 powi (exponentDown x e - e) \<le> x)"
proof (induction x e rule: exponentDown.induct)
  case (1 x e)
  show ?case
  proof (cases "1 \<le> x \<or> e \<le> - 1022")
    case True
    then have "exponentDown x e = e" by (simp add: exponentDown.simps)
    with 1 True show ?thesis by auto
  next
    case False
    then have eq: "exponentDown x e = exponentDown (2 * x) (e - 1)"
      by (subst exponentDown.simps) simp
    from False 1 have "2 * x < 2" "- 1022 \<le> e - 1" by simp_all
    from 1(1) [OF False this]
    have ih: "- 1022 \<le> exponentDown x e" "exponentDown x e \<le> e - 1"
      "2 * x < 2 powi (exponentDown x e - (e - 1) + 1)"
      "- 1022 < exponentDown x e \<longrightarrow> 2 powi (exponentDown x e - (e - 1)) \<le> 2 * x"
      unfolding eq by simp_all
    have p: "(2 :: real) powi (exponentDown x e - (e - 1) + 1)
        = 2 * 2 powi (exponentDown x e - e + 1)"
      using power_int_add_1' [of "2 :: real" "exponentDown x e - e + 1"]
      by (simp add: algebra_simps)
    have q: "(2 :: real) powi (exponentDown x e - (e - 1)) = 2 * 2 powi (exponentDown x e - e)"
      using power_int_add_1' [of "2 :: real" "exponentDown x e - e"]
      by (simp add: algebra_simps)
    from ih show ?thesis unfolding p q by auto
  qed
qed

lemma exponent64_bounds:
  "- 1022 \<le> exponent64 x" "exponent64 x \<le> 1023"
  "- 1022 < exponent64 x \<Longrightarrow> 2 powi (exponent64 x) \<le> \<bar>x\<bar>"
  "exponent64 x < 1023 \<Longrightarrow> \<bar>x\<bar> < 2 powi (exponent64 x + 1)"
proof -
  have "- 1022 \<le> exponent64 x \<and> exponent64 x \<le> 1023
      \<and> (- 1022 < exponent64 x \<longrightarrow> 2 powi (exponent64 x) \<le> \<bar>x\<bar>)
      \<and> (exponent64 x < 1023 \<longrightarrow> \<bar>x\<bar> < 2 powi (exponent64 x + 1))"
  proof (cases "1 \<le> \<bar>x\<bar>")
    case True
    with exponentUp_bounds [of "\<bar>x\<bar>" 0] show ?thesis by (simp add: exponent64_def)
  next
    case False
    with exponentDown_bounds [of "\<bar>x\<bar>" 0] show ?thesis by (simp add: exponent64_def)
  qed
  then show "- 1022 \<le> exponent64 x" "exponent64 x \<le> 1023"
    "- 1022 < exponent64 x \<Longrightarrow> 2 powi (exponent64 x) \<le> \<bar>x\<bar>"
    "exponent64 x < 1023 \<Longrightarrow> \<bar>x\<bar> < 2 powi (exponent64 x + 1)" by blast+
qed

lemma exponent64_mono:
  assumes "\<bar>x\<bar> \<le> \<bar>a\<bar>"
  shows "exponent64 x \<le> exponent64 a"
proof (rule ccontr)
  assume "\<not> exponent64 x \<le> exponent64 a"
  then have lt: "exponent64 a < exponent64 x" by simp
  with exponent64_bounds(1) [of a] have "- 1022 < exponent64 x" by simp
  then have "2 powi (exponent64 x) \<le> \<bar>x\<bar>" by (rule exponent64_bounds(3))
  moreover from lt exponent64_bounds(2) [of x] have "exponent64 a < 1023" by simp
  then have "\<bar>a\<bar> < 2 powi (exponent64 a + 1)" by (rule exponent64_bounds(4))
  moreover have "(2 :: real) powi (exponent64 a + 1) \<le> 2 powi (exponent64 x)"
    using lt by (intro power_int_increasing) simp_all
  ultimately show False using assms by simp
qed

lemma ulp64_pos: "0 < ulp64 x"
  by (simp add: ulp64_def zero_less_power_int)

lemma ulp64_multiple:
  assumes "\<bar>x\<bar> \<le> \<bar>a\<bar>"
  shows "ulp64 a = 2 ^ nat (exponent64 a - exponent64 x) * ulp64 x"
proof -
  from exponent64_mono [OF assms] have d: "0 \<le> exponent64 a - exponent64 x" by simp
  have "(2 :: real) powi (exponent64 a - 52)
        = 2 powi ((exponent64 a - exponent64 x) + (exponent64 x - 52))" by simp
  also have "\<dots> = 2 powi (exponent64 a - exponent64 x) * 2 powi (exponent64 x - 52)"
    by (rule power_int_add) simp
  also have "(2 :: real) powi (exponent64 a - exponent64 x) = 2 ^ nat (exponent64 a - exponent64 x)"
    using d by (simp add: power_int_def)
  finally show ?thesis by (simp add: ulp64_def)
qed

lemma roundHalfEven_cases:
  "roundHalfEven t = \<lfloor>t\<rfloor> \<and> t - of_int \<lfloor>t\<rfloor> \<le> 1 / 2
   \<or> roundHalfEven t = \<lfloor>t\<rfloor> + 1 \<and> 1 / 2 \<le> t - of_int \<lfloor>t\<rfloor>"
  by (auto simp: roundHalfEven_def Let_def)

lemma roundHalfEven_error: "\<bar>of_int (roundHalfEven t) - t\<bar> \<le> 1 / 2"
  using roundHalfEven_cases [of t] by linarith

lemma roundHalfEven_le: "t \<le> of_int k \<Longrightarrow> roundHalfEven t \<le> k"
  using roundHalfEven_cases [of t] by linarith

lemma roundHalfEven_ge: "of_int k \<le> t \<Longrightarrow> k \<le> roundHalfEven t"
  using roundHalfEven_cases [of t] by linarith

lemma round64_fixed:
  assumes "round64 a = Fin a"
  shows "a = of_int (roundHalfEven (a / ulp64 a)) * ulp64 a" "\<bar>a\<bar> < 2 ^ 1024"
  using assms by (auto simp: round64_def Let_def split: if_splits)

lemma round64_between:
  assumes x: "0 \<le> x" "x \<le> a" and a: "round64 a = Fin a"
  shows "\<exists>y. round64 x = Fin y \<and> 0 \<le> y \<and> y \<le> a \<and> \<bar>y - x\<bar> \<le> ulp64 a / 2"
proof -
  let ?u = "ulp64 x"
  let ?n = "roundHalfEven (x / ?u)"
  let ?y = "of_int ?n * ?u"
  have u: "0 < ?u" by (rule ulp64_pos)
  have abs: "\<bar>x\<bar> \<le> \<bar>a\<bar>" using x by simp
  define d where "d = nat (exponent64 a - exponent64 x)"
  have ua: "ulp64 a = 2 ^ d * ?u" unfolding d_def by (rule ulp64_multiple [OF abs])
  define m where "m = roundHalfEven (a / ulp64 a)"
  have am: "a = of_int m * ulp64 a" and alt: "\<bar>a\<bar> < 2 ^ 1024"
    unfolding m_def by (rule round64_fixed [OF a])+
  define k where "k = m * 2 ^ d"
  have ak: "a = of_int k * ?u"
    using am ua by (simp add: k_def)
  have "x / ?u \<le> of_int k"
    using x(2) u ak by (simp add: field_simps)
  then have nk: "?n \<le> k" by (rule roundHalfEven_le)
  have "of_int 0 \<le> x / ?u" using x(1) u by simp
  then have n0: "0 \<le> ?n" by (rule roundHalfEven_ge)
  have y0: "0 \<le> ?y" using n0 u by simp
  have "?y \<le> of_int k * ?u" using nk u by (simp add: mult_right_mono)
  then have ya: "?y \<le> a" using ak by simp
  have "\<bar>?y - x\<bar> = \<bar>of_int ?n - x / ?u\<bar> * ?u"
    using u by (simp add: abs_mult [symmetric] field_simps)
  also have "\<dots> \<le> 1 / 2 * ?u"
    using roundHalfEven_error [of "x / ?u"] u by (intro mult_right_mono) simp_all
  also have "\<dots> \<le> ulp64 a / 2"
    using u unfolding ua by (simp add: field_simps)
  finally have err: "\<bar>?y - x\<bar> \<le> ulp64 a / 2" .
  have "\<bar>?y\<bar> < 2 ^ 1024" using y0 ya alt x by simp
  then have "round64 x = Fin ?y" by (simp add: round64_def Let_def)
  with y0 ya err show ?thesis by blast
qed

lemmas round64_eval =
  round64_def ulp64_def exponent64_def exponentUp.simps exponentDown.simps roundHalfEven_def
  Let_def power_int_def power_divide

lemma round64_one: "round64 1 = Fin 1"
  by (simp add: round64_eval)

subsection \<open>One hour in binary64 arithmetic\<close>

text \<open>
  The remaining demand stays between 0 and the electrolyzer capacity. A source takes the
  minimum of its available power and the remaining demand, and the subtraction of that
  from the remaining demand is off by at most half a unit in the last place of the
  capacity: this is all that the sum of the allocations can exceed the capacity by.
\<close>

lemma arith64_finite:
  "add64 (Fin a) (Fin b) = round64 (a + b)"
  "sub64 (Fin a) (Fin b) = round64 (a - b)"
  "mul64 (Fin a) (Fin b) = round64 (a * b)"
  "b \<noteq> 0 \<Longrightarrow> div64 (Fin a) (Fin b) = round64 (a / b)"
  by (simp_all add: add64_def sub64_def mul64_def div64_def rounded_def jsub_def)

lemma capacityFactorAt64_bounds:
  assumes "capacityFactor fin = Fin p" and "0 \<le> p" and "p \<le> 100"
    and "\<forall>ts. timeSeriesData s = Some ts \<longrightarrow>
           (\<forall>v \<in> set ts. \<exists>x. v = Number (Fin x) \<and> 0 \<le> x \<and> x \<le> 1)"
  shows "\<exists>x. capacityFactorAt64 fin s h = Fin x \<and> 0 \<le> x \<and> x \<le> 1"
proof -
  let ?fallback = "if powerSource.type s = Grid then Fin 1
                   else div64 (capacityFactor fin) (Fin 100)"
  have "\<exists>y. round64 (p / 100) = Fin y \<and> 0 \<le> y \<and> y \<le> 1 \<and> \<bar>y - p / 100\<bar> \<le> ulp64 1 / 2"
    using assms(2,3) by (intro round64_between round64_one) simp_all
  then obtain y where "round64 (p / 100) = Fin y" "0 \<le> y" "y \<le> 1" by blast
  then have fb: "\<exists>x. ?fallback = Fin x \<and> 0 \<le> x \<and> x \<le> 1"
    using assms(1) by (simp add: arith64_finite)
  show ?thesis
  proof (cases "timeSeriesData s")
    case None
    with fb show ?thesis by (simp add: capacityFactorAt64_def)
  next
    case (Some ts)
    show ?thesis
    proof (cases "h < length ts")
      case True
      then have "ts ! h \<in> set ts" by simp
      with assms(4) Some obtain x where "ts ! h = Number (Fin x)" "0 \<le> x" "x \<le> 1" by blast
      with Some True show ?thesis by (simp add: capacityFactorAt64_def)
    next
      case False
      with Some fb show ?thesis by (simp add: capacityFactorAt64_def)
    qed
  qed
qed

lemma availablePower64_bounds:
  assumes "powerSource.capacity s = Fin k" and "0 < k" and "round64 k = Fin k"
    and "capacityFactor fin = Fin p" and "0 \<le> p" and "p \<le> 100"
    and "\<forall>ts. timeSeriesData s = Some ts \<longrightarrow>
           (\<forall>v \<in> set ts. \<exists>x. v = Number (Fin x) \<and> 0 \<le> x \<and> x \<le> 1)"
  shows "\<exists>a. availablePower64 fin s h = Fin a \<and> 0 \<le> a \<and> a \<le> k"
proof -
  from capacityFactorAt64_bounds [OF assms(4,5,6,7)]
  obtain x where x: "capacityFactorAt64 fin s h = Fin x" "0 \<le> x" "x \<le> 1" by blast
  have "0 \<le> k * x" using assms(2) x(2) by simp
  moreover have "k * x \<le> k" using assms(2) x(3) by (simp add: mult_left_le)
  ultimately have "\<exists>y. round64 (k * x) = Fin y \<and> 0 \<le> y \<and> y \<le> k \<and> \<bar>y - k * x\<bar> \<le> ulp64 k / 2"
    using assms(3) by (rule round64_between)
  then show ?thesis
    using assms(1) x(1) by (auto simp: availablePower64_def arith64_finite)
qed

lemma sourceLoop64_frame:
  "simulation.hourlyDispatch (sourceLoop64 fin h srcs st) = simulation.hourlyDispatch st"
  by (induction srcs arbitrary: st) (simp_all add: dispatchSource64_def Let_def)

lemma sourceLoop64_conservation:
  assumes "\<forall>s \<in> set srcs. \<exists>a k. availablePower64 fin s h = Fin a \<and> 0 \<le> a \<and> a \<le> k
             \<and> round64 k = Fin k"
    and "round64 c = Fin c"
    and "remainingDemand st = Fin r" and "0 \<le> r" and "r \<le> c"
  shows "\<exists>es us r'.
      sourceDispatch (sourceLoop64 fin h srcs st) = sourceDispatch st @ es
    \<and> remainingDemand (sourceLoop64 fin h srcs st) = Fin r' \<and> 0 \<le> r'
    \<and> map powerUsed es = map Fin us
    \<and> (\<forall>u \<in> set us. 0 \<le> u \<and> u \<le> c)
    \<and> sum_list us + r' \<le> r + real (length us) * (ulp64 c / 2)
    \<and> hourlyEnergyUsed (sourceLoop64 fin h srcs st)
        = fold (\<lambda>e acc. add64 acc (powerUsed e)) es (hourlyEnergyUsed st)
    \<and> length es \<le> length (filter dispatchable srcs)
    \<and> (\<forall>i < length es.
          dispatchEntry.type (es ! i) = powerSource.type (filter dispatchable srcs ! i)
        \<and> powerCurtailed (es ! i)
            = sub64 (availablePower64 fin (filter dispatchable srcs ! i) h) (powerUsed (es ! i))
        \<and> jle (Fin 0) (powerCurtailed (es ! i)))"
  using assms
proof (induction srcs arbitrary: st r)
  case Nil
  show ?case
    using Nil.prems(3,4) by (intro exI [of _ "[]"] exI [of _ r]) simp
next
  case (Cons s rest)
  note c = Cons.prems(2) and r = Cons.prems(3,4,5)
  have av: "\<forall>s \<in> set rest. \<exists>a k. availablePower64 fin s h = Fin a \<and> 0 \<le> a \<and> a \<le> k
             \<and> round64 k = Fin k"
    using Cons.prems(1) by simp
  show ?case
  proof (cases "r = 0")
    case True
    with r have "sourceLoop64 fin h (s # rest) st = st" by simp
    then show ?thesis
      using r by (intro exI [of _ "[]"] exI [of _ r]) simp
  next
    case False
    with r have rpos: "0 < r" by simp
    show ?thesis
    proof (cases "dispatchable s")
      case False
      with r rpos have eq: "sourceLoop64 fin h (s # rest) st = sourceLoop64 fin h rest st"
        by (simp add: dispatchable_def)
      from Cons.IH [OF av c r] False show ?thesis
        unfolding eq by simp
    next
      case True
      from Cons.prems(1) obtain a k where a: "availablePower64 fin s h = Fin a" "0 \<le> a"
        "a \<le> k" "round64 k = Fin k"
        by auto
      define used where "used = min a r"
      have used: "mathMin (Fin a) (Fin r) = Fin used" "0 \<le> used" "used \<le> r" "used \<le> a"
        using a(2) r(2) by (simp_all add: used_def min_def)
      have "\<exists>q. round64 (a - used) = Fin q \<and> 0 \<le> q \<and> q \<le> k
              \<and> \<bar>q - (a - used)\<bar> \<le> ulp64 k / 2"
        using used(2,4) a(3,4) by (intro round64_between) simp_all
      then obtain q where q: "round64 (a - used) = Fin q" "0 \<le> q" by blast
      have "\<exists>r1. round64 (r - used) = Fin r1 \<and> 0 \<le> r1 \<and> r1 \<le> c
              \<and> \<bar>r1 - (r - used)\<bar> \<le> ulp64 c / 2"
        using used(2,3) r(3) c by (intro round64_between) simp_all
      then obtain r1 where r1: "round64 (r - used) = Fin r1" "0 \<le> r1" "r1 \<le> c"
        "\<bar>r1 - (r - used)\<bar> \<le> ulp64 c / 2" by blast
      let ?e0 = "\<lparr>dispatchEntry.type = powerSource.type s, powerUsed = Fin used,
                  powerCurtailed = Fin q\<rparr>"
      define st1 where "st1 = dispatchSource64 fin h s st"
      have st1: "remainingDemand st1 = Fin r1"
        "hourlyEnergyUsed st1 = add64 (hourlyEnergyUsed st) (Fin used)"
        "sourceDispatch st1 = sourceDispatch st @ [?e0]"
        using r(1) a(1) used(1) q r1(1)
        by (simp_all add: st1_def dispatchSource64_def Let_def arith64_finite)
      have eq: "sourceLoop64 fin h (s # rest) st = sourceLoop64 fin h rest st1"
        using r(1) rpos True by (simp add: dispatchable_def st1_def)
      from Cons.IH [OF av c st1(1) r1(2,3)]
      obtain es us r' where es:
        "sourceDispatch (sourceLoop64 fin h rest st1) = sourceDispatch st1 @ es"
        "remainingDemand (sourceLoop64 fin h rest st1) = Fin r'" "0 \<le> r'"
        "map powerUsed es = map Fin us"
        "\<forall>u \<in> set us. 0 \<le> u \<and> u \<le> c"
        "sum_list us + r' \<le> r1 + real (length us) * (ulp64 c / 2)"
        "hourlyEnergyUsed (sourceLoop64 fin h rest st1)
          = fold (\<lambda>e acc. add64 acc (powerUsed e)) es (hourlyEnergyUsed st1)"
        "length es \<le> length (filter dispatchable rest)"
        "\<forall>i < length es.
          dispatchEntry.type (es ! i) = powerSource.type (filter dispatchable rest ! i)
        \<and> powerCurtailed (es ! i)
            = sub64 (availablePower64 fin (filter dispatchable rest ! i) h) (powerUsed (es ! i))
        \<and> jle (Fin 0) (powerCurtailed (es ! i))"
        by blast
      have f: "filter dispatchable (s # rest) = s # filter dispatchable rest"
        using True by simp
      have props: "dispatchEntry.type ((?e0 # es) ! i)
            = powerSource.type ((s # filter dispatchable rest) ! i)
        \<and> powerCurtailed ((?e0 # es) ! i)
            = sub64 (availablePower64 fin ((s # filter dispatchable rest) ! i) h)
                (powerUsed ((?e0 # es) ! i))
        \<and> jle (Fin 0) (powerCurtailed ((?e0 # es) ! i))"
        if "i < length (?e0 # es)" for i
      proof (cases i)
        case 0
        then show ?thesis using a(1) q by (simp add: arith64_finite)
      next
        case (Suc j)
        with that have "j < length es" by simp
        with es(9) have j: "dispatchEntry.type (es ! j)
            = powerSource.type (filter dispatchable rest ! j)
        \<and> powerCurtailed (es ! j)
            = sub64 (availablePower64 fin (filter dispatchable rest ! j) h) (powerUsed (es ! j))
        \<and> jle (Fin 0) (powerCurtailed (es ! j))" by blast
        show ?thesis unfolding Suc nth_Cons_Suc by (rule j)
      qed
      show ?thesis
        unfolding eq f
      proof (intro exI [of _ "?e0 # es"] exI [of _ "used # us"] exI [of _ r'] conjI)
        show "sourceDispatch (sourceLoop64 fin h rest st1) = sourceDispatch st @ ?e0 # es"
          using es(1) st1(3) by simp
        show "remainingDemand (sourceLoop64 fin h rest st1) = Fin r'" by fact
        show "0 \<le> r'" by fact
        show "map powerUsed (?e0 # es) = map Fin (used # us)"
          using es(4) by simp
        show "\<forall>u \<in> set (used # us). 0 \<le> u \<and> u \<le> c"
          using es(5) used(2,3) r(3) by simp
        show "sum_list (used # us) + r' \<le> r + real (length (used # us)) * (ulp64 c / 2)"
        proof -
          have "r1 \<le> r - used + ulp64 c / 2" using r1(4) by linarith
          moreover have "real (length (used # us)) * (ulp64 c / 2)
              = real (length us) * (ulp64 c / 2) + ulp64 c / 2"
            by (simp add: algebra_simps)
          moreover have "sum_list (used # us) = used + sum_list us" by simp
          ultimately show ?thesis using es(6) by linarith
        qed
        show "hourlyEnergyUsed (sourceLoop64 fin h rest st1)
            = fold (\<lambda>e acc. add64 acc (powerUsed e)) (?e0 # es) (hourlyEnergyUsed st)"
          using es(7) st1(2) by simp
        show "length (?e0 # es) \<le> length (s # filter dispatchable rest)"
          using es(8) by simp
        show "\<forall>i < length (?e0 # es).
          dispatchEntry.type ((?e0 # es) ! i)
            = powerSource.type ((s # filter dispatchable rest) ! i)
        \<and> powerCurtailed ((?e0 # es) ! i)
            = sub64 (availablePower64 fin ((s # filter dispatchable rest) ! i) h)
                (powerUsed ((?e0 # es) ! i))
        \<and> jle (Fin 0) (powerCurtailed ((?e0 # es) ! i))"
          using props by blast
      qed
    qed
  qed
qed

subsection \<open>The record of an hour in binary64 arithmetic\<close>

lemma dispatchHour64_record:
  assumes av: "\<forall>s \<in> set srcs. \<exists>a k. availablePower64 fin s h = Fin a \<and> 0 \<le> a \<and> a \<le> k
             \<and> round64 k = Fin k"
    and cap: "electrolyzer.capacity el = Fin c" and c: "0 \<le> c" "round64 c = Fin c"
  shows "\<exists>rec. simulation.hourlyDispatch (dispatchHour64 el fin srcs h sim)
                 = simulation.hourlyDispatch sim @ [rec]
    \<and> (\<exists>us. map powerUsed (sources rec) = map Fin us
        \<and> (\<forall>u \<in> set us. 0 \<le> u \<and> u \<le> c)
        \<and> sum_list us \<le> c + real (length us) * (ulp64 c / 2))
    \<and> energyUsed rec = fold (\<lambda>e acc. add64 acc (powerUsed e)) (sources rec) (Fin 0)
    \<and> length (sources rec) \<le> length (filter dispatchable srcs)
    \<and> (\<forall>i < length (sources rec).
          dispatchEntry.type (sources rec ! i) = powerSource.type (filter dispatchable srcs ! i)
        \<and> powerCurtailed (sources rec ! i)
            = sub64 (availablePower64 fin (filter dispatchable srcs ! i) h)
                (powerUsed (sources rec ! i))
        \<and> jle (Fin 0) (powerCurtailed (sources rec ! i)))"
proof -
  define st0 where "st0 = sim\<lparr>hourlyEnergyUsed := Fin 0, hourlyCurtailed := Fin 0,
                      sourceDispatch := [], remainingDemand := electrolyzer.capacity el\<rparr>"
  have s0: "remainingDemand st0 = Fin c" "hourlyEnergyUsed st0 = Fin 0" "sourceDispatch st0 = []"
    "simulation.hourlyDispatch st0 = simulation.hourlyDispatch sim"
    by (simp_all add: st0_def cap)
  have cc: "c \<le> c" by simp
  from sourceLoop64_conservation [OF av c(2) s0(1) c(1) cc]
  obtain es us r' where es:
    "sourceDispatch (sourceLoop64 fin h srcs st0) = sourceDispatch st0 @ es"
    "remainingDemand (sourceLoop64 fin h srcs st0) = Fin r'" "0 \<le> r'"
    "map powerUsed es = map Fin us"
    "\<forall>u \<in> set us. 0 \<le> u \<and> u \<le> c"
    "sum_list us + r' \<le> c + real (length us) * (ulp64 c / 2)"
    "hourlyEnergyUsed (sourceLoop64 fin h srcs st0)
        = fold (\<lambda>e acc. add64 acc (powerUsed e)) es (hourlyEnergyUsed st0)"
    "length es \<le> length (filter dispatchable srcs)"
    "\<forall>i < length es.
          dispatchEntry.type (es ! i) = powerSource.type (filter dispatchable srcs ! i)
        \<and> powerCurtailed (es ! i)
            = sub64 (availablePower64 fin (filter dispatchable srcs ! i) h) (powerUsed (es ! i))
        \<and> jle (Fin 0) (powerCurtailed (es ! i))"
    by blast
  let ?st = "sourceLoop64 fin h srcs st0"
  let ?rec = "\<lparr>hour = h, energyUsed = hourlyEnergyUsed ?st,
                curtailedEnergy = hourlyCurtailed ?st,
                dispatchPercentage = div64 (hourlyEnergyUsed ?st) (electrolyzer.capacity el),
                sources = sourceDispatch ?st\<rparr>"
  have hd: "simulation.hourlyDispatch (dispatchHour64 el fin srcs h sim)
            = simulation.hourlyDispatch sim @ [?rec]"
    using sourceLoop64_frame [of fin h srcs st0] s0(4)
    by (simp add: dispatchHour64_def Let_def st0_def [symmetric])
  have src: "sources ?rec = es" using es(1) s0(3) by simp
  have eu: "energyUsed ?rec = fold (\<lambda>e acc. add64 acc (powerUsed e)) es (Fin 0)"
    using es(7) s0(2) by simp
  have sum: "sum_list us \<le> c + real (length us) * (ulp64 c / 2)"
    using es(3,6) by linarith
  show ?thesis
  proof (rule exI [of _ ?rec], intro conjI)
    show "simulation.hourlyDispatch (dispatchHour64 el fin srcs h sim)
            = simulation.hourlyDispatch sim @ [?rec]" by (rule hd)
    show "\<exists>us. map powerUsed (sources ?rec) = map Fin us
        \<and> (\<forall>u \<in> set us. 0 \<le> u \<and> u \<le> c)
        \<and> sum_list us \<le> c + real (length us) * (ulp64 c / 2)"
      unfolding src using es(4,5) sum by blast
    show "energyUsed ?rec = fold (\<lambda>e acc. add64 acc (powerUsed e)) (sources ?rec) (Fin 0)"
      unfolding src by (rule eu)
    show "length (sources ?rec) \<le> length (filter dispatchable srcs)"
      unfolding src by (rule es(8))
    show "\<forall>i < length (sources ?rec).
          dispatchEntry.type (sources ?rec ! i) = powerSource.type (filter dispatchable srcs ! i)
        \<and> powerCurtailed (sources ?rec ! i)
            = sub64 (availablePower64 fin (filter dispatchable srcs ! i) h)
                (powerUsed (sources ?rec ! i))
        \<and> jle (Fin 0) (powerCurtailed (sources ?rec ! i))"
      unfolding src by (rule es(9))
  qed
qed

lemma fold_hour_records:
  assumes step: "\<And>h sim. h \<in> set hs \<Longrightarrow>
      \<exists>rec. simulation.hourlyDispatch (f h sim) = simulation.hourlyDispatch sim @ [rec] \<and> Q h rec"
  shows "\<exists>recs. simulation.hourlyDispatch (fold f hs sim) = simulation.hourlyDispatch sim @ recs
      \<and> length recs = length hs \<and> (\<forall>i < length hs. Q (hs ! i) (recs ! i))"
  using step
proof (induction hs arbitrary: sim)
  case Nil
  then show ?case by simp
next
  case (Cons h hs)
  from Cons.prems [of h sim] obtain rec where rec:
    "simulation.hourlyDispatch (f h sim) = simulation.hourlyDispatch sim @ [rec]" "Q h rec"
    by auto
  have "\<And>h' sim'. h' \<in> set hs \<Longrightarrow>
      \<exists>rec. simulation.hourlyDispatch (f h' sim') = simulation.hourlyDispatch sim' @ [rec]
        \<and> Q h' rec"
    using Cons.prems by simp
  from Cons.IH [OF this, of "f h sim"]
  obtain recs where recs:
    "simulation.hourlyDispatch (fold f hs (f h sim)) = simulation.hourlyDispatch (f h sim) @ recs"
    "length recs = length hs" "\<forall>i < length hs. Q (hs ! i) (recs ! i)"
    by blast
  show ?case
  proof (rule exI [of _ "rec # recs"], intro conjI allI impI)
    show "simulation.hourlyDispatch (fold f (h # hs) sim)
            = simulation.hourlyDispatch sim @ rec # recs"
      using recs(1) rec(1) by simp
    show "length (rec # recs) = length (h # hs)" using recs(2) by simp
    fix i
    assume "i < length (h # hs)"
    then show "Q ((h # hs) ! i) ((rec # recs) ! i)"
      using rec(2) recs(3) by (cases i) simp_all
  qed
qed

lemma simulateHours64_hour:
  assumes step: "\<And>h sim. h < n \<Longrightarrow>
      \<exists>rec. simulation.hourlyDispatch (dispatchHour64 el fin srcs h sim)
               = simulation.hourlyDispatch sim @ [rec] \<and> Q h rec"
    and h: "h < n"
  shows "Q h (simulation.hourlyDispatch (simulateHours64 el fin srcs [0..<n]) ! h)"
proof -
  have "\<And>h sim. h \<in> set [0..<n] \<Longrightarrow>
      \<exists>rec. simulation.hourlyDispatch (dispatchHour64 el fin srcs h sim)
               = simulation.hourlyDispatch sim @ [rec] \<and> Q h rec"
    using step by (simp only: set_upt atLeastLessThan_iff)
  from fold_hour_records [of "[0..<n]" "dispatchHour64 el fin srcs" Q initialSimulation, OF this]
  obtain recs where recs:
    "simulation.hourlyDispatch (fold (dispatchHour64 el fin srcs) [0..<n] initialSimulation)
       = simulation.hourlyDispatch initialSimulation @ recs"
    "length recs = length [0..<n]" "\<forall>i < length [0..<n]. Q ([0..<n] ! i) (recs ! i)"
    by blast
  have eq: "simulation.hourlyDispatch (simulateHours64 el fin srcs [0..<n]) = recs"
    using recs(1) by (simp add: simulateHours64_def initialSimulation_def)
  have "Q ([0..<n] ! h) (recs ! h)" using recs(3) h by (simp only: length_upt diff_zero)
  moreover have "[0..<n] ! h = h" using h by (simp only: nth_upt add_0)
  ultimately show ?thesis using eq by simp
qed

lemma sourceLoop64_local:
  assumes "remainingDemand st = remainingDemand st'"
    and "hourlyEnergyUsed st = hourlyEnergyUsed st'"
    and "hourlyCurtailed st = hourlyCurtailed st'"
    and "sourceDispatch st = sourceDispatch st'"
  shows "remainingDemand (sourceLoop64 fin h srcs st)
           = remainingDemand (sourceLoop64 fin h srcs st')
       \<and> hourlyEnergyUsed (sourceLoop64 fin h srcs st)
           = hourlyEnergyUsed (sourceLoop64 fin h srcs st')
       \<and> hourlyCurtailed (sourceLoop64 fin h srcs st)
           = hourlyCurtailed (sourceLoop64 fin h srcs st')
       \<and> sourceDispatch (sourceLoop64 fin h srcs st)
           = sourceDispatch (sourceLoop64 fin h srcs st')"
  using assms
proof (induction srcs arbitrary: st st')
  case Nil
  then show ?case by simp
next
  case (Cons s rest)
  have "remainingDemand (dispatchSource64 fin h s st)
          = remainingDemand (dispatchSource64 fin h s st')"
    "hourlyEnergyUsed (dispatchSource64 fin h s st)
          = hourlyEnergyUsed (dispatchSource64 fin h s st')"
    "hourlyCurtailed (dispatchSource64 fin h s st)
          = hourlyCurtailed (dispatchSource64 fin h s st')"
    "sourceDispatch (dispatchSource64 fin h s st)
          = sourceDispatch (dispatchSource64 fin h s st')"
    using Cons.prems by (simp_all add: dispatchSource64_def Let_def)
  from Cons.IH [OF this] Cons.IH [OF Cons.prems] Cons.prems show ?case
    by simp
qed

lemma dispatchHour64_same_record:
  "simulation.hourlyDispatch (dispatchHour64 el fin srcs h sim)
     = simulation.hourlyDispatch sim
       @ [last (simulation.hourlyDispatch (dispatchHour64 el fin srcs h initialSimulation))]"
proof -
  let ?reset = "\<lambda>s. s\<lparr>hourlyEnergyUsed := Fin 0, hourlyCurtailed := Fin 0,
                      sourceDispatch := [], remainingDemand := electrolyzer.capacity el\<rparr>"
  have "remainingDemand (sourceLoop64 fin h srcs (?reset sim))
          = remainingDemand (sourceLoop64 fin h srcs (?reset initialSimulation))
       \<and> hourlyEnergyUsed (sourceLoop64 fin h srcs (?reset sim))
          = hourlyEnergyUsed (sourceLoop64 fin h srcs (?reset initialSimulation))
       \<and> hourlyCurtailed (sourceLoop64 fin h srcs (?reset sim))
          = hourlyCurtailed (sourceLoop64 fin h srcs (?reset initialSimulation))
       \<and> sourceDispatch (sourceLoop64 fin h srcs (?reset sim))
          = sourceDispatch (sourceLoop64 fin h srcs (?reset initialSimulation))"
    by (rule sourceLoop64_local) simp_all
  moreover have "simulation.hourlyDispatch (sourceLoop64 fin h srcs (?reset sim))
                   = simulation.hourlyDispatch sim"
    using sourceLoop64_frame [of fin h srcs "?reset sim"] by simp
  ultimately show ?thesis
    by (simp add: dispatchHour64_def Let_def)
qed

lemma simulateHours64_nth:
  assumes "h < n"
  shows "simulation.hourlyDispatch (simulateHours64 el fin srcs [0..<n]) ! h
           = last (simulation.hourlyDispatch (dispatchHour64 el fin srcs h initialSimulation))"
proof -
  have "\<exists>rec. simulation.hourlyDispatch (dispatchHour64 el fin srcs h' sim)
               = simulation.hourlyDispatch sim @ [rec]
             \<and> rec = last (simulation.hourlyDispatch
                             (dispatchHour64 el fin srcs h' initialSimulation))"
    for h' sim
    using dispatchHour64_same_record [of el fin srcs h' sim] by simp
  from simulateHours64_hour [of n el fin srcs
      "\<lambda>h rec. rec = last (simulation.hourlyDispatch
                             (dispatchHour64 el fin srcs h initialSimulation))" h,
      OF this assms]
  show ?thesis by simp
qed

subsection \<open>An hour in which the allocations exceed the capacity\<close>

lemmas rounding_example =
  roundingInputs_def smallGrid_def largeGrid_def initialInputs_def initialGrid_def

text \<open>The decimals 0.3 and 0.9 as binary64 values, and that 100 is one.\<close>

lemma rounding_values:
  "round64 (3 / 10) = Fin (5404319552844595 / 2 ^ 54)"
  "round64 (5404319552844595 / 2 ^ 54) = Fin (5404319552844595 / 2 ^ 54)"
  "round64 (9 / 10) = Fin (8106479329266893 / 2 ^ 53)"
  "round64 (8106479329266893 / 2 ^ 53) = Fin (8106479329266893 / 2 ^ 53)"
  "round64 100 = Fin 100"
  by (simp_all add: round64_eval)

lemma rounding_sorted: "sortSources (updatedSources roundingInputs) = [smallGrid, largeGrid]"
  by (simp add: rounding_example round64_eval updatedSources_def updateSource_def
      sortSources_def compareSources_def jsub_def)

lemma rounding_record:
  "roundingRecord =
     \<lparr>hour = 0, energyUsed = Fin (8106479329266894 / 2 ^ 53),
      curtailedEnergy = Fin (6994653171259802 / 2 ^ 46),
      dispatchPercentage = Fin (4503599627370497 / 2 ^ 52),
      sources =
        [\<lparr>dispatchEntry.type = Grid, powerUsed = Fin (5404319552844595 / 2 ^ 54),
          powerCurtailed = Fin 0\<rparr>,
         \<lparr>dispatchEntry.type = Grid, powerUsed = Fin (5404319552844596 / 2 ^ 53),
          powerCurtailed = Fin (6994653171259802 / 2 ^ 46)\<rparr>]\<rparr>"
proof -
  have "roundingRecord =
      last (simulation.hourlyDispatch
              (dispatchHour64 (electrolyzer roundingInputs) (financial roundingInputs)
                 [smallGrid, largeGrid] 0 initialSimulation))"
    unfolding rounding_sorted by (rule simulateHours64_nth) simp
  also have "\<dots> =
     \<lparr>hour = 0, energyUsed = Fin (8106479329266894 / 2 ^ 53),
      curtailedEnergy = Fin (6994653171259802 / 2 ^ 46),
      dispatchPercentage = Fin (4503599627370497 / 2 ^ 52),
      sources =
        [\<lparr>dispatchEntry.type = Grid, powerUsed = Fin (5404319552844595 / 2 ^ 54),
          powerCurtailed = Fin 0\<rparr>,
         \<lparr>dispatchEntry.type = Grid, powerUsed = Fin (5404319552844596 / 2 ^ 53),
          powerCurtailed = Fin (6994653171259802 / 2 ^ 46)\<rparr>]\<rparr>"
    by (simp add: rounding_example round64_eval dispatchHour64_def dispatchSource64_def
        availablePower64_def capacityFactorAt64_def addEnergy64_def initialSimulation_def
        add64_def sub64_def mul64_def div64_def rounded_def jsub_def)
  finally show ?thesis .
qed

text \<open>
  C2, as the specification states it: in every hour the sum of \<open>powerUsed\<close> over the
  sources never exceeds the electrolyzer capacity. It fails in the arithmetic of the
  program. With an electrolyzer of 0.9 MW and two grid sources of 0.3 MW and 100 MW, the
  first source gives 0.3, the remaining demand is \<open>0.9 - 0.3 = 0.6000000000000001\<close>, the
  second source gives exactly that, and the sum is \<open>0.9000000000000001\<close>, above the
  capacity: as the program adds it (\<open>energyUsed\<close>), and as the exact sum of the two
  stored numbers.
\<close>

theorem dispatch_conservation_counterexample:
  "electrolyzer.capacity (electrolyzer roundingInputs) = Fin (8106479329266893 / 2 ^ 53)
   \<and> sortSources (updatedSources roundingInputs) = [smallGrid, largeGrid]
   \<and> map powerSource.capacity [smallGrid, largeGrid]
       = [Fin (5404319552844595 / 2 ^ 54), Fin 100]
   \<and> map powerUsed (sources roundingRecord)
       = [Fin (5404319552844595 / 2 ^ 54), Fin (5404319552844596 / 2 ^ 53)]
   \<and> energyUsed roundingRecord
       = Fin (8106479329266894 / 2 ^ 53)
   \<and> jlt (electrolyzer.capacity (electrolyzer roundingInputs))
        (energyUsed roundingRecord)
   \<and> (8106479329266893 / 2 ^ 53 :: real)
       < 5404319552844595 / 2 ^ 54 + 5404319552844596 / 2 ^ 53"
  unfolding rounding_record
  by (simp add: rounding_sorted) (simp add: rounding_example round64_eval)

text \<open>
  C2, amended. In every hour of the dispatch simulation, with an electrolyzer capacity
  and source capacities that are positive binary64 numbers and every capacity factor
  (profile cells and the default) in \<open>[0, 1]\<close>: every \<open>powerUsed\<close> is between 0 and the
  electrolyzer capacity, and the sum of \<open>powerUsed\<close> over the sources dispatched in that
  hour exceeds the electrolyzer capacity by at most the rounding error of the remaining
  demand, half a unit in the last place of the capacity for each dispatched source;
  \<open>energyUsed\<close> is that sum as the binary64 addition accumulates it; the entries are
  those of the first dispatchable sources of the sorted list, and for each of them
  \<open>powerCurtailed\<close> is \<open>availablePower - powerUsed\<close>, as the binary64 subtraction gives
  it, and is at least 0. The statement holds for every list of sources, whatever order
  the sort has put them in.
\<close>

theorem dispatch_conservation_binary64:
  assumes cap: "electrolyzer.capacity el = Fin c" and c: "0 < c" "round64 c = Fin c"
    and caps: "\<forall>s \<in> set srcs. \<exists>k. powerSource.capacity s = Fin k \<and> 0 < k \<and> round64 k = Fin k"
    and series: "\<forall>s \<in> set srcs. \<forall>ts. timeSeriesData s = Some ts \<longrightarrow>
           (\<forall>v \<in> set ts. \<exists>x. v = Number (Fin x) \<and> 0 \<le> x \<and> x \<le> 1)"
    and dflt: "capacityFactor fin = Fin p" and p: "0 \<le> p" "p \<le> 100"
    and h: "h < 8760"
  shows "(\<exists>us. map powerUsed (sources (hourRecord64 el fin srcs h)) = map Fin us
        \<and> (\<forall>u \<in> set us. 0 \<le> u \<and> u \<le> c)
        \<and> sum_list us \<le> c + real (length us) * (ulp64 c / 2))
    \<and> energyUsed (hourRecord64 el fin srcs h)
        = fold (\<lambda>e acc. add64 acc (powerUsed e)) (sources (hourRecord64 el fin srcs h)) (Fin 0)
    \<and> length (sources (hourRecord64 el fin srcs h)) \<le> length (filter dispatchable srcs)
    \<and> (\<forall>i < length (sources (hourRecord64 el fin srcs h)).
          dispatchEntry.type (sources (hourRecord64 el fin srcs h) ! i)
            = powerSource.type (filter dispatchable srcs ! i)
        \<and> powerCurtailed (sources (hourRecord64 el fin srcs h) ! i)
            = sub64 (availablePower64 fin (filter dispatchable srcs ! i) h)
                (powerUsed (sources (hourRecord64 el fin srcs h) ! i))
        \<and> jle (Fin 0) (powerCurtailed (sources (hourRecord64 el fin srcs h) ! i)))"
proof -
  have av: "\<forall>s \<in> set srcs. \<exists>a k. availablePower64 fin s h' = Fin a \<and> 0 \<le> a \<and> a \<le> k
             \<and> round64 k = Fin k" for h'
  proof
    fix s
    assume s: "s \<in> set srcs"
    with caps obtain k where k: "powerSource.capacity s = Fin k" "0 < k" "round64 k = Fin k"
      by blast
    from series s have ts: "\<forall>ts. timeSeriesData s = Some ts \<longrightarrow>
           (\<forall>v \<in> set ts. \<exists>x. v = Number (Fin x) \<and> 0 \<le> x \<and> x \<le> 1)" by blast
    from availablePower64_bounds [OF k dflt p ts, of h'] k(3)
    show "\<exists>a k. availablePower64 fin s h' = Fin a \<and> 0 \<le> a \<and> a \<le> k \<and> round64 k = Fin k"
      by blast
  qed
  have c0: "0 \<le> c" using c(1) by simp
  have step: "\<exists>rec. simulation.hourlyDispatch (dispatchHour64 el fin srcs h' sim)
                 = simulation.hourlyDispatch sim @ [rec]
    \<and> (\<exists>us. map powerUsed (sources rec) = map Fin us
        \<and> (\<forall>u \<in> set us. 0 \<le> u \<and> u \<le> c)
        \<and> sum_list us \<le> c + real (length us) * (ulp64 c / 2))
    \<and> energyUsed rec = fold (\<lambda>e acc. add64 acc (powerUsed e)) (sources rec) (Fin 0)
    \<and> length (sources rec) \<le> length (filter dispatchable srcs)
    \<and> (\<forall>i < length (sources rec).
          dispatchEntry.type (sources rec ! i) = powerSource.type (filter dispatchable srcs ! i)
        \<and> powerCurtailed (sources rec ! i)
            = sub64 (availablePower64 fin (filter dispatchable srcs ! i) h')
                (powerUsed (sources rec ! i))
        \<and> jle (Fin 0) (powerCurtailed (sources rec ! i)))"
    for h' sim
    by (rule dispatchHour64_record [OF av cap c0 c(2)])
  from simulateHours64_hour [of 8760 el fin srcs
      "\<lambda>h' rec. (\<exists>us. map powerUsed (sources rec) = map Fin us
        \<and> (\<forall>u \<in> set us. 0 \<le> u \<and> u \<le> c)
        \<and> sum_list us \<le> c + real (length us) * (ulp64 c / 2))
    \<and> energyUsed rec = fold (\<lambda>e acc. add64 acc (powerUsed e)) (sources rec) (Fin 0)
    \<and> length (sources rec) \<le> length (filter dispatchable srcs)
    \<and> (\<forall>i < length (sources rec).
          dispatchEntry.type (sources rec ! i) = powerSource.type (filter dispatchable srcs ! i)
        \<and> powerCurtailed (sources rec ! i)
            = sub64 (availablePower64 fin (filter dispatchable srcs ! i) h')
                (powerUsed (sources rec ! i))
        \<and> jle (Fin 0) (powerCurtailed (sources rec ! i)))" h, OF step h]
  show ?thesis .
qed

theorem dispatch_conservation_binary64_witness:
  "electrolyzer.capacity (electrolyzer roundingInputs) = Fin (8106479329266893 / 2 ^ 53)
   \<and> (0 :: real) < 8106479329266893 / 2 ^ 53
   \<and> round64 (8106479329266893 / 2 ^ 53) = Fin (8106479329266893 / 2 ^ 53)
   \<and> list_all (\<lambda>s. \<exists>k. powerSource.capacity s = Fin k \<and> 0 < k \<and> round64 k = Fin k)
         (sortSources (updatedSources roundingInputs))
   \<and> capacityFactor (financial roundingInputs) = Fin 90 \<and> (0 :: nat) < 8760
   \<and> 5404319552844595 / 2 ^ 54 + 5404319552844596 / 2 ^ 53
       \<le> 8106479329266893 / 2 ^ 53 + 2 * (ulp64 (8106479329266893 / 2 ^ 53) / 2)
   \<and> (8106479329266893 / 2 ^ 53 :: real)
       < 5404319552844595 / 2 ^ 54 + 5404319552844596 / 2 ^ 53
   \<and> energyUsed roundingRecord
       = fold (\<lambda>e acc. add64 acc (powerUsed e))
           (sources roundingRecord) (Fin 0)
   \<and> (1 :: nat) < length (sources roundingRecord)
   \<and> powerCurtailed (sources roundingRecord ! 1)
       = sub64 (availablePower64 (financial roundingInputs)
                  (filter dispatchable (sortSources (updatedSources roundingInputs)) ! 1) 0)
               (powerUsed (sources roundingRecord ! 1))
   \<and> jle (Fin 0)
        (powerCurtailed (sources roundingRecord ! 1))
   \<and> powerCurtailed (sources roundingRecord ! 1)
       = Fin (6994653171259802 / 2 ^ 46)"
proof -
  have cap: "electrolyzer.capacity (electrolyzer roundingInputs) = Fin (8106479329266893 / 2 ^ 53)"
    by (simp add: rounding_example round64_eval)
  have c: "(0 :: real) < 8106479329266893 / 2 ^ 53" by simp
  have cr: "round64 (8106479329266893 / 2 ^ 53) = Fin (8106479329266893 / 2 ^ 53)"
    by (rule rounding_values)
  have "\<exists>k. powerSource.capacity smallGrid = Fin k \<and> 0 < k \<and> round64 k = Fin k"
  proof (intro exI conjI)
    show "powerSource.capacity smallGrid = Fin (5404319552844595 / 2 ^ 54)"
      by (simp add: rounding_example rounding_values(1))
    show "(0 :: real) < 5404319552844595 / 2 ^ 54" by simp
    show "round64 (5404319552844595 / 2 ^ 54) = Fin (5404319552844595 / 2 ^ 54)"
      by (rule rounding_values)
  qed
  moreover have "\<exists>k. powerSource.capacity largeGrid = Fin k \<and> 0 < k \<and> round64 k = Fin k"
  proof (intro exI conjI)
    show "powerSource.capacity largeGrid = Fin 100" by (simp add: rounding_example)
    show "(0 :: real) < 100" by simp
    show "round64 100 = Fin 100" by (rule rounding_values)
  qed
  ultimately have caps: "\<forall>s \<in> set (sortSources (updatedSources roundingInputs)).
      \<exists>k. powerSource.capacity s = Fin k \<and> 0 < k \<and> round64 k = Fin k"
    unfolding rounding_sorted by simp
  have series: "\<forall>s \<in> set (sortSources (updatedSources roundingInputs)).
      \<forall>ts. timeSeriesData s = Some ts \<longrightarrow>
           (\<forall>v \<in> set ts. \<exists>x. v = Number (Fin x) \<and> 0 \<le> x \<and> x \<le> 1)"
    unfolding rounding_sorted by (simp add: rounding_example)
  have dflt: "capacityFactor (financial roundingInputs) = Fin 90"
    by (simp add: rounding_example)
  have p: "(0 :: real) \<le> 90" "(90 :: real) \<le> 100" and h: "(0 :: nat) < 8760"
    by simp_all
  note inst = dispatch_conservation_binary64 [OF cap c cr caps series dflt p h]
  from inst [THEN conjunct1] obtain us where us:
    "map powerUsed (sources roundingRecord) = map Fin us"
    "sum_list us \<le> 8106479329266893 / 2 ^ 53
        + real (length us) * (ulp64 (8106479329266893 / 2 ^ 53) / 2)"
    by blast
  have "map Fin us = [Fin (5404319552844595 / 2 ^ 54), Fin (5404319552844596 / 2 ^ 53)]"
    using us(1) unfolding rounding_record by simp
  then have "us = [5404319552844595 / 2 ^ 54, 5404319552844596 / 2 ^ 53]"
    by (auto simp: map_eq_Cons_conv)
  with us(2) have sum: "5404319552844595 / 2 ^ 54 + 5404319552844596 / 2 ^ 53
       \<le> 8106479329266893 / 2 ^ 53 + 2 * (ulp64 (8106479329266893 / 2 ^ 53) / 2)"
    by simp
  have len: "(1 :: nat) < length (sources roundingRecord)"
    unfolding rounding_record by simp
  note entry = inst [THEN conjunct2, THEN conjunct2, THEN conjunct2, rule_format, OF len]
  show ?thesis
  proof (intro conjI)
    show "list_all (\<lambda>s. \<exists>k. powerSource.capacity s = Fin k \<and> 0 < k \<and> round64 k = Fin k)
        (sortSources (updatedSources roundingInputs))"
      unfolding list_all_iff by (rule caps)
    show "(8106479329266893 / 2 ^ 53 :: real)
       < 5404319552844595 / 2 ^ 54 + 5404319552844596 / 2 ^ 53" by simp
    show "energyUsed roundingRecord
       = fold (\<lambda>e acc. add64 acc (powerUsed e))
           (sources roundingRecord) (Fin 0)"
      by (rule inst [THEN conjunct2, THEN conjunct1])
    show "powerCurtailed (sources roundingRecord ! 1)
       = sub64 (availablePower64 (financial roundingInputs)
                  (filter dispatchable (sortSources (updatedSources roundingInputs)) ! 1) 0)
               (powerUsed (sources roundingRecord ! 1))"
      by (rule entry [THEN conjunct2, THEN conjunct1])
    show "jle (Fin 0)
        (powerCurtailed (sources roundingRecord ! 1))"
      by (rule entry [THEN conjunct2, THEN conjunct2])
    show "powerCurtailed (sources roundingRecord ! 1)
       = Fin (6994653171259802 / 2 ^ 46)"
      unfolding rounding_record by simp
  qed (rule cap c cr dflt h sum len)+
qed

section \<open>Properties of the cost figures\<close>

text \<open>
  C8. With a finite return rate of \<open>p\<close> percent and a lifetime of at least one year (and
  a denominator that is not zero), the capital recovery factor is
  \<open>rate * (1 + rate) ^ lifetime / ((1 + rate) ^ lifetime - 1)\<close> for \<open>rate = p / 100\<close>; for 8
  percent and 20 years it lies within \<open>1e-4\<close> of 0.10185.
\<close>

theorem crf_formula:
  assumes "returnRate fin = Fin p" and "1 \<le> lifetime fin"
    and "(1 + p / 100) ^ nat (lifetime fin) \<noteq> 1"
  shows "crf fin = Fin (p / 100 * (1 + p / 100) ^ nat (lifetime fin)
                        / ((1 + p / 100) ^ nat (lifetime fin) - 1))
         \<and> (p = 8 \<and> lifetime fin = 20 \<longrightarrow>
              \<bar>p / 100 * (1 + p / 100) ^ nat (lifetime fin)
                 / ((1 + p / 100) ^ nat (lifetime fin) - 1) - 10185 / 100000\<bar> < 1 / 10000)"
proof
  show "crf fin = Fin (p / 100 * (1 + p / 100) ^ nat (lifetime fin)
                        / ((1 + p / 100) ^ nat (lifetime fin) - 1))"
    using assms by (simp add: crf_def Let_def jsub_def)
next
  show "p = 8 \<and> lifetime fin = 20 \<longrightarrow>
              \<bar>p / 100 * (1 + p / 100) ^ nat (lifetime fin)
                 / ((1 + p / 100) ^ nat (lifetime fin) - 1) - 10185 / 100000\<bar> < 1 / 10000"
  proof
    assume h: "p = 8 \<and> lifetime fin = 20"
    show "\<bar>p / 100 * (1 + p / 100) ^ nat (lifetime fin)
                 / ((1 + p / 100) ^ nat (lifetime fin) - 1) - 10185 / 100000\<bar> < 1 / 10000"
      using h by (simp add: power_divide)
  qed
qed

theorem crf_formula_witness:
  "returnRate \<lparr>returnRate = Fin 8, lifetime = 20, capacityFactor = Fin 90\<rparr> = Fin 8
   \<and> 1 \<le> lifetime \<lparr>returnRate = Fin 8, lifetime = 20, capacityFactor = Fin 90\<rparr>
   \<and> (1 + 8 / 100 :: real) ^ 20 \<noteq> 1
   \<and> crf \<lparr>returnRate = Fin 8, lifetime = 20, capacityFactor = Fin 90\<rparr>
       = Fin (8 / 100 * (1 + 8 / 100) ^ 20 / ((1 + 8 / 100) ^ 20 - 1))
   \<and> \<bar>8 / 100 * (1 + 8 / 100) ^ 20 / ((1 + 8 / 100) ^ 20 - 1) - 10185 / 100000 :: real\<bar>
       < 1 / 10000"
  using crf_formula [of "\<lparr>returnRate = Fin 8, lifetime = 20, capacityFactor = Fin 90\<rparr>" 8]
  by (simp add: power_divide)

section \<open>Division by zero in the results\<close>

subsection \<open>Hours in which nothing is dispatched\<close>

lemma sourceLoop_none:
  "\<forall>s \<in> set srcs. \<not> dispatchable s \<Longrightarrow> sourceLoop fin h srcs st = st"
  by (induction srcs) (simp_all add: dispatchable_def)

lemma simulateHours_idle_fold:
  assumes "\<forall>s \<in> set srcs. \<not> dispatchable s"
    and "simulation.totalEnergyUsed sim = Fin 0"
    and "simulation.totalCurtailedEnergy sim = Fin 0"
    and "energyBySource sim = []"
  shows "simulation.totalEnergyUsed (fold (dispatchHour el fin srcs) hs sim) = Fin 0
       \<and> simulation.totalCurtailedEnergy (fold (dispatchHour el fin srcs) hs sim) = Fin 0
       \<and> energyBySource (fold (dispatchHour el fin srcs) hs sim) = []"
  using assms(2,3,4)
proof (induction hs arbitrary: sim)
  case Nil
  then show ?case by simp
next
  case (Cons h hs)
  have "simulation.totalEnergyUsed (dispatchHour el fin srcs h sim) = Fin 0"
    "simulation.totalCurtailedEnergy (dispatchHour el fin srcs h sim) = Fin 0"
    "energyBySource (dispatchHour el fin srcs h sim) = []"
    using Cons.prems by (simp_all add: dispatchHour_def Let_def sourceLoop_none [OF assms(1)])
  from Cons.IH [OF this] show ?case by simp
qed

lemma simulateHours_idle:
  assumes "\<forall>s \<in> set srcs. \<not> dispatchable s"
  shows "simulation.totalEnergyUsed (simulateHours el fin srcs hs) = Fin 0
       \<and> simulation.totalCurtailedEnergy (simulateHours el fin srcs hs) = Fin 0
       \<and> energyBySource (simulateHours el fin srcs hs) = []"
  unfolding simulateHours_def
  by (rule simulateHours_idle_fold [OF assms]) (simp_all add: initialSimulation_def)

text \<open>The grid priced at zero, as the only source: nothing is dispatched.\<close>

lemma free_grid_idle:
  "simulation.totalEnergyUsed (simulateDispatch freeGridInputs) = Fin 0
   \<and> simulation.totalCurtailedEnergy (simulateDispatch freeGridInputs) = Fin 0
   \<and> energyBySource (simulateDispatch freeGridInputs) = []"
proof -
  have "\<forall>s \<in> set (sortSources (updatedSources freeGridInputs)). \<not> dispatchable s"
    by (simp add: freeGridInputs_def freeGrid_def updatedSources_def updateSource_def
        sortSources_def initialGrid_def dispatchable_def)
  then show ?thesis
    unfolding simulateDispatch_def by (rule simulateHours_idle)
qed

lemma free_grid_cost:
  "jlt (Fin 0) (results.totalAnnualCost (computeResults freeGridInputs))"
  using free_grid_idle
  by (simp add: computeResults_def Let_def crf_def totalPowerSourceCapex_def
      totalPowerSourceOpex_def totalEnergyCost_def updatedSources_def updateSource_def
      freeGridInputs_def freeGrid_def initialInputs_def initialGrid_def jsub_def power_divide)

lemma free_grid_hydrogen:
  "annualH2Production (computeResults freeGridInputs) = Fin 0"
  using free_grid_idle
  by (simp add: computeResults_def Let_def hydrogenProduction_def actualEnergyPerKg_def
      freeGridInputs_def initialInputs_def)

lemma lcoh_quotient:
  "lcoh (computeResults inp)
     = jdiv (results.totalAnnualCost (computeResults inp))
         (annualH2Production (computeResults inp))"
  by (simp add: computeResults_def Let_def)

subsection \<open>Division by zero\<close>

lemma jdiv_zero_not_finite: "\<not> isFinite (jdiv x (Fin 0))"
  by (cases x) (simp_all add: signedInf_def)

lemma jdiv_positive_by_zero: "jlt (Fin 0) x \<Longrightarrow> jdiv x (Fin 0) = PInf"
  by (cases x) (simp_all add: signedInf_def)

lemma add_zero_funpow: "((\<lambda>acc. jadd acc (Fin 0)) ^^ n) (Fin 0) = Fin 0"
  by (induction n) simp_all

lemma mathPow_positive: "0 < d \<Longrightarrow> \<exists>q. mathPow (Fin d) y = Fin q \<and> 0 < q"
  by simp

lemma present_value_zero:
  "0 < d \<Longrightarrow>
   fold (\<lambda>year acc. jadd acc (jdiv (Fin 0) (mathPow (Fin d) year))) ys (Fin 0) = Fin 0"
proof (induction ys)
  case Nil
  show ?case by simp
next
  case (Cons y ys)
  from mathPow_positive [OF Cons.prems, of y] obtain q where
    "mathPow (Fin d) y = Fin q" "0 < q" by blast
  with Cons show ?case by simp
qed

lemma present_value_positive:
  "0 \<le> x \<Longrightarrow> 0 < d \<Longrightarrow> 0 < a \<Longrightarrow>
   jlt (Fin 0) (fold (\<lambda>year acc. jadd acc (jdiv (Fin x) (mathPow (Fin d) year))) ys (Fin a))"
proof (induction ys arbitrary: a)
  case Nil
  then show ?case by simp
next
  case (Cons y ys)
  from mathPow_positive [OF Cons.prems(2), of y] obtain q where
    q: "mathPow (Fin d) y = Fin q" "0 < q" by blast
  have "0 < a + x / q" using Cons.prems q(2) by (simp add: add_pos_nonneg)
  from Cons.IH [OF Cons.prems(1,2) this] q show ?case by simp
qed

lemma zero_profile_energy:
  "totalPresentValueEnergy initialSolar (Some (replicate 8760 (Number (Fin 0))))
      (financial initialInputs) = Fin 0"
proof -
  have "annualEnergyProduction initialSolar (Some (replicate 8760 (Number (Fin 0))))
      (financial initialInputs) = Fin 0"
    by (simp add: annualEnergyProduction_def initialSolar_def add_zero_funpow)
  moreover have "jadd (Fin 1) (discountRateOf (financial initialInputs)) = Fin (27 / 25)"
    by (simp add: discountRateOf_def initialInputs_def)
  ultimately show ?thesis
    unfolding totalPresentValueEnergy_def by (simp only: present_value_zero)
qed

lemma zero_profile_cost:
  "jlt (Fin 0) (totalPresentValueCost initialSolar (financial initialInputs))"
proof -
  have "jadd (Fin 1) (discountRateOf (financial initialInputs)) = Fin (27 / 25)"
    by (simp add: discountRateOf_def initialInputs_def)
  moreover have "jmul (powerSource.opex initialSolar) (capacityKW initialSolar) = Fin 3000000"
    and "jmul (powerSource.capex initialSolar) (capacityKW initialSolar) = Fin 150000000"
    by (simp_all add: capacityKW_def initialSolar_def)
  ultimately show ?thesis
    unfolding totalPresentValueCost_def
    by (simp only: present_value_positive)
qed

text \<open>
  C1, as the specification states it: a zero annual hydrogen production, or a zero present
  value of energy, is surfaced as an error and never returned as an infinity without a
  signal. It fails: with the grid priced at zero as the only source, the hydrogen
  production is 0 and \<open>calculateLCOH\<close> stores the result with \<open>lcoh = Infinity\<close>, shows it
  and leaves the error message empty; with a profile of zeros, \<open>calculateLCOE\<close> returns
  \<open>Infinity\<close> as an ordinary number.
\<close>

theorem division_by_zero_counterexample:
  "map_option annualH2Production (results (calculateLCOH freeGridApp)) = Some (Fin 0)
   \<and> map_option lcoh (results (calculateLCOH freeGridApp)) = Some PInf
   \<and> showResults (calculateLCOH freeGridApp) = True
   \<and> apiError (calculateLCOH freeGridApp) = ''''
   \<and> totalPresentValueEnergy initialSolar (Some (replicate 8760 (Number (Fin 0))))
       (financial initialInputs) = Fin 0
   \<and> calculateLCOE initialSolar (Some (replicate 8760 (Number (Fin 0)))) (financial initialInputs)
       = PInf"
proof -
  have "lcoh (computeResults freeGridInputs) = PInf"
    unfolding lcoh_quotient free_grid_hydrogen
    using free_grid_cost by (rule jdiv_positive_by_zero)
  moreover have "calculateLCOE initialSolar (Some (replicate 8760 (Number (Fin 0))))
      (financial initialInputs) = PInf"
    unfolding calculateLCOE_def zero_profile_energy
    using zero_profile_cost by (rule jdiv_positive_by_zero)
  ultimately show ?thesis
    using free_grid_hydrogen zero_profile_energy
    by (simp add: calculateLCOH_def freeGridApp_def initialApp_def)
qed

text \<open>
  C1, amended. When the annual hydrogen production is zero, \<open>lcoh\<close> is the quotient of the
  total annual cost by zero: plus or minus infinity, or NaN, never a finite number, so it
  cannot be taken for a valid zero. The same holds for the value \<open>calculateLCOE\<close> returns
  when the present value of energy is zero. No error is raised: \<open>calculateLCOH\<close> stores
  the result, shows it and leaves the error message as it was.
\<close>

theorem division_by_zero_not_finite:
  "(annualH2Production (computeResults inp) = Fin 0 \<longrightarrow> \<not> isFinite (lcoh (computeResults inp)))
   \<and> (totalPresentValueEnergy source series fin = Fin 0 \<longrightarrow>
        \<not> isFinite (calculateLCOE source series fin))
   \<and> results (calculateLCOH app) = Some (computeResults (inputs app))
   \<and> showResults (calculateLCOH app) = True
   \<and> apiError (calculateLCOH app) = apiError app"
proof (intro conjI impI)
  assume "annualH2Production (computeResults inp) = Fin 0"
  then show "\<not> isFinite (lcoh (computeResults inp))"
    unfolding lcoh_quotient by (simp only: jdiv_zero_not_finite not_False_eq_True)
next
  assume "totalPresentValueEnergy source series fin = Fin 0"
  then show "\<not> isFinite (calculateLCOE source series fin)"
    unfolding calculateLCOE_def by (simp only: jdiv_zero_not_finite not_False_eq_True)
qed (simp_all add: calculateLCOH_def)

theorem division_by_zero_not_finite_witness:
  "annualH2Production (computeResults freeGridInputs) = Fin 0
   \<and> \<not> isFinite (lcoh (computeResults freeGridInputs))
   \<and> totalPresentValueEnergy initialSolar (Some (replicate 8760 (Number (Fin 0))))
       (financial initialInputs) = Fin 0
   \<and> \<not> isFinite (calculateLCOE initialSolar (Some (replicate 8760 (Number (Fin 0))))
       (financial initialInputs))
   \<and> apiError (calculateLCOH freeGridApp) = ''''"
  using division_by_zero_not_finite
      [of freeGridInputs initialSolar "(Some (replicate 8760 (Number (Fin 0))))" "financial
      initialInputs" freeGridApp]
    free_grid_hydrogen zero_profile_energy
  by (simp add: freeGridApp_def initialApp_def)

text \<open>
  C4, as the specification states it: the curtailment percentage is 0 when the energy used
  and the energy curtailed are both 0, the division being guarded. It fails: with the
  grid priced at zero as the only source both totals are 0, and the stored percentage is
  NaN.
\<close>

theorem curtailment_counterexample:
  "simulation.totalEnergyUsed (simulateDispatch freeGridInputs) = Fin 0
   \<and> simulation.totalCurtailedEnergy (simulateDispatch freeGridInputs) = Fin 0
   \<and> curtailmentPercentage (energyStats (computeResults freeGridInputs)) = NaN
   \<and> curtailmentPercentage (energyStats (computeResults freeGridInputs)) \<noteq> Fin 0"
  using free_grid_idle
  by (simp add: computeResults_def Let_def curtailmentOf_def)

text \<open>
  C4, amended. The curtailment percentage is
  \<open>totalCurtailedEnergy / (totalEnergyUsed + totalCurtailedEnergy) * 100\<close>, computed
  without a guard: for finite totals whose sum is not zero it is that real number, and
  when both totals are 0 it is NaN.
\<close>

theorem curtailment_percentage:
  "curtailmentPercentage (energyStats (computeResults inp))
     = jmul (jdiv (simulation.totalCurtailedEnergy (simulateDispatch inp))
               (jadd (simulation.totalEnergyUsed (simulateDispatch inp))
                  (simulation.totalCurtailedEnergy (simulateDispatch inp))))
         (Fin 100)
   \<and> (u + k \<noteq> 0 \<longrightarrow> curtailmentOf (Fin u) (Fin k) = Fin (k / (u + k) * 100))
   \<and> curtailmentOf (Fin 0) (Fin 0) = NaN"
  by (simp add: computeResults_def Let_def curtailmentOf_def)

theorem curtailment_percentage_witness:
  "(100 :: real) + 60 \<noteq> 0
   \<and> curtailmentOf (Fin 100) (Fin 60) = Fin (60 / (100 + 60) * 100)
   \<and> curtailmentOf (Fin 0) (Fin 0) = NaN"
  using curtailment_percentage [of initialInputs 100 60]
  by simp

section \<open>Properties of \<open>calculateLCOE\<close>\<close>

subsection \<open>The cost of energy is linear in the capacity\<close>

lemma series_sum:
  assumes "\<forall>v \<in> set ts. \<exists>x. v = Number (Fin x)"
  shows "\<exists>A. \<forall>k a. fold (\<lambda>cf acc. jadd acc (jmul (Fin k) (toNumber cf))) ts (Fin a)
                     = Fin (a + k * A)"
  using assms
proof (induction ts)
  case Nil
  show ?case by (rule exI [of _ 0]) simp
next
  case (Cons v ts)
  then obtain x A where x: "v = Number (Fin x)"
    and A: "\<forall>k a. fold (\<lambda>cf acc. jadd acc (jmul (Fin k) (toNumber cf))) ts (Fin a)
                   = Fin (a + k * A)"
    by auto
  show ?case
    by (rule exI [of _ "x + A"]) (simp add: x A algebra_simps)
qed

lemma annual_energy_linear:
  assumes "capacityFactor fin = Fin p"
    and "\<forall>ts. series = Some ts \<longrightarrow> (\<forall>v \<in> set ts. \<exists>x. v = Number (Fin x))"
  shows "\<exists>A. \<forall>k. annualEnergyProduction (source\<lparr>powerSource.capacity := Fin k\<rparr>) series fin
                   = Fin (k * A)"
proof -
  have dflt: "jmul (jmul (capacityKW (source\<lparr>powerSource.capacity := Fin k\<rparr>))
                      (jdiv (capacityFactor fin) (Fin 100))) (Fin 8760)
                = Fin (k * (1000 * (p / 100) * 8760))" for k
    by (simp add: capacityKW_def assms(1))
  show ?thesis
  proof (cases series)
    case None
    show ?thesis
      by (rule exI [of _ "1000 * (p / 100) * 8760"])
         (simp only: annualEnergyProduction_def None option.case dflt, simp)
  next
    case (Some ts)
    show ?thesis
    proof (cases "0 < length ts")
      case False
      show ?thesis
        by (rule exI [of _ "1000 * (p / 100) * 8760"])
           (simp only: annualEnergyProduction_def Some option.case False if_False dflt, simp)
    next
      case True
      from assms(2) Some have "\<forall>v \<in> set ts. \<exists>x. v = Number (Fin x)" by simp
      from series_sum [OF this] obtain A where
        A: "\<forall>k a. fold (\<lambda>cf acc. jadd acc (jmul (Fin k) (toNumber cf))) ts (Fin a)
                   = Fin (a + k * A)"
        by blast
      show ?thesis
        using True
        by (intro exI [of _ "A * 1000"]) (simp add: annualEnergyProduction_def Some A)
    qed
  qed
qed

lemma mathPow_nonzero: "d \<noteq> 0 \<Longrightarrow> \<exists>q. mathPow (Fin d) y = Fin q \<and> q \<noteq> 0"
  by simp

lemma present_value_sum:
  assumes "d \<noteq> 0"
  shows "\<exists>S. \<forall>x a. fold (\<lambda>year acc. jadd acc (jdiv (Fin x) (mathPow (Fin d) year))) ys (Fin a)
                     = Fin (a + x * S)"
proof (induction ys)
  case Nil
  show ?case by (rule exI [of _ 0]) simp
next
  case (Cons y ys)
  then obtain S where
    S: "\<forall>x a. fold (\<lambda>year acc. jadd acc (jdiv (Fin x) (mathPow (Fin d) year))) ys (Fin a)
               = Fin (a + x * S)"
    by blast
  from mathPow_nonzero [OF assms, of y] obtain q where
    q: "mathPow (Fin d) y = Fin q" "q \<noteq> 0" by blast
  show ?case
    by (rule exI [of _ "1 / q + S"]) (simp add: q S algebra_simps del: mathPow.simps)
qed

lemma lcoe_closed_form:
  assumes "powerSource.capex source = Fin cx" and "powerSource.opex source = Fin ox"
    and "returnRate fin = Fin r" and "r \<noteq> - 100"
    and "capacityFactor fin = Fin p"
    and "\<forall>ts. series = Some ts \<longrightarrow> (\<forall>v \<in> set ts. \<exists>x. v = Number (Fin x))"
  shows "\<exists>A S. \<forall>k.
      totalPresentValueCost (source\<lparr>powerSource.capacity := Fin k\<rparr>) fin
        = Fin (k * (1000 * (cx + ox * S)))
    \<and> totalPresentValueEnergy (source\<lparr>powerSource.capacity := Fin k\<rparr>) series fin
        = Fin (k * (A * S))"
proof -
  have d: "jadd (Fin 1) (discountRateOf fin) = Fin (1 + r / 100)"
    by (simp add: discountRateOf_def assms(3))
  have d0: "1 + r / 100 \<noteq> 0" using assms(4) by simp
  from annual_energy_linear [OF assms(5,6)] obtain A where
    A: "\<forall>k. annualEnergyProduction (source\<lparr>powerSource.capacity := Fin k\<rparr>) series fin
             = Fin (k * A)"
    by blast
  from present_value_sum [OF d0, of "[1..lifetime fin]"] obtain S where
    S: "\<forall>x a. fold (\<lambda>year acc. jadd acc (jdiv (Fin x) (mathPow (Fin (1 + r / 100)) year)))
                 [1..lifetime fin] (Fin a)
               = Fin (a + x * S)"
    by blast
  have cost: "totalPresentValueCost (source\<lparr>powerSource.capacity := Fin k\<rparr>) fin
                = Fin (k * (1000 * (cx + ox * S)))" for k
  proof -
    have "jmul (powerSource.opex (source\<lparr>powerSource.capacity := Fin k\<rparr>))
            (capacityKW (source\<lparr>powerSource.capacity := Fin k\<rparr>)) = Fin (ox * (k * 1000))"
      and "jmul (powerSource.capex (source\<lparr>powerSource.capacity := Fin k\<rparr>))
            (capacityKW (source\<lparr>powerSource.capacity := Fin k\<rparr>)) = Fin (cx * (k * 1000))"
      by (simp_all add: capacityKW_def assms(1,2))
    then have "totalPresentValueCost (source\<lparr>powerSource.capacity := Fin k\<rparr>) fin
                 = Fin (cx * (k * 1000) + ox * (k * 1000) * S)"
      unfolding totalPresentValueCost_def d by (simp only: S)
    then show ?thesis by (simp add: algebra_simps)
  qed
  have energy: "totalPresentValueEnergy (source\<lparr>powerSource.capacity := Fin k\<rparr>) series fin
                  = Fin (k * (A * S))" for k
  proof -
    have "totalPresentValueEnergy (source\<lparr>powerSource.capacity := Fin k\<rparr>) series fin
            = Fin (0 + k * A * S)"
      unfolding totalPresentValueEnergy_def d by (simp only: A S)
    then show ?thesis by (simp add: algebra_simps)
  qed
  show ?thesis
    using cost energy by blast
qed

text \<open>
  C6. For a source and financial parameters with finite values, a return rate other than
  -100 percent and a positive present value of energy, doubling the
  capacity (same capex and opex per kW, same profile or default capacity factor) leaves
  the value of \<open>calculateLCOE\<close> unchanged.
\<close>

theorem lcoe_scaling:
  assumes "powerSource.capacity source = Fin k"
    and "powerSource.capex source = Fin cx" and "powerSource.opex source = Fin ox"
    and "returnRate fin = Fin r" and "r \<noteq> - 100"
    and "capacityFactor fin = Fin p"
    and "\<forall>ts. series = Some ts \<longrightarrow> (\<forall>v \<in> set ts. \<exists>x. v = Number (Fin x))"
    and "jlt (Fin 0) (totalPresentValueEnergy source series fin)"
  shows "calculateLCOE (source\<lparr>powerSource.capacity := Fin (2 * k)\<rparr>) series fin
           = calculateLCOE source series fin"
proof -
  from lcoe_closed_form [OF assms(2-7)] obtain A S where
    cost: "\<And>k. totalPresentValueCost (source\<lparr>powerSource.capacity := Fin k\<rparr>) fin
                  = Fin (k * (1000 * (cx + ox * S)))"
    and energy: "\<And>k. totalPresentValueEnergy (source\<lparr>powerSource.capacity := Fin k\<rparr>) series fin
                  = Fin (k * (A * S))"
    by blast
  have same: "source\<lparr>powerSource.capacity := Fin k\<rparr> = source"
    using assms(1) by simp
  have pos: "0 < k * (A * S)"
    using assms(8) energy [of k] unfolding same by simp
  then have nz1: "k * (A * S) \<noteq> 0" by (rule less_imp_neq [THEN not_sym])
  then have nz2: "2 * k * (A * S) \<noteq> 0" by simp
  note nz = nz1 nz2
  have "calculateLCOE (source\<lparr>powerSource.capacity := Fin (2 * k)\<rparr>) series fin
          = Fin (2 * k * (1000 * (cx + ox * S)) / (2 * k * (A * S)))"
    unfolding calculateLCOE_def cost energy using nz by simp
  moreover have "calculateLCOE source series fin
          = Fin (k * (1000 * (cx + ox * S)) / (k * (A * S)))"
    using cost [of k] energy [of k] nz unfolding same calculateLCOE_def by simp
  moreover have "2 * k * (1000 * (cx + ox * S)) / (2 * k * (A * S))
          = k * (1000 * (cx + ox * S)) / (k * (A * S))"
    using nz by simp
  ultimately show ?thesis by simp
qed

lemma constant_profile_sum:
  "((\<lambda>acc. jadd acc (Fin c)) ^^ n) (Fin a) = Fin (a + real n * c)"
  by (induction n arbitrary: a) (simp_all add: funpow_swap1 algebra_simps)

lemma example_energy:
  "jlt (Fin 0) (totalPresentValueEnergy initialSolar
      (Some (replicate 8760 (Number (Fin (2 / 5))))) (financial initialInputs))"
proof -
  have ae: "annualEnergyProduction initialSolar (Some (replicate 8760 (Number (Fin (2 / 5)))))
      (financial initialInputs) = Fin 525600000"
    by (simp add: annualEnergyProduction_def initialSolar_def constant_profile_sum)
  have d: "jadd (Fin 1) (discountRateOf (financial initialInputs)) = Fin (27 / 25)"
    by (simp add: discountRateOf_def initialInputs_def)
  have l: "lifetime (financial initialInputs) = 20" by (simp add: initialInputs_def)
  have "jlt (Fin 0)
          (fold (\<lambda>year acc. jadd acc (jdiv (Fin 525600000) (mathPow (Fin (27 / 25)) year)))
             [2..20] (Fin (0 + 525600000 / (27 / 25))))"
    by (rule present_value_positive) simp_all
  moreover have "[1..20] = 1 # [2..(20 :: int)]"
    by (simp add: upto.simps)
  ultimately show ?thesis
    unfolding totalPresentValueEnergy_def ae d l by simp
qed

theorem lcoe_scaling_witness:
  "powerSource.capacity initialSolar = Fin 150
   \<and> powerSource.capex initialSolar = Fin 1000 \<and> powerSource.opex initialSolar = Fin 20
   \<and> returnRate (financial initialInputs) = Fin 8 \<and> (8 :: real) \<noteq> - 100
   \<and> capacityFactor (financial initialInputs) = Fin 90
   \<and> list_all (\<lambda>v. \<exists>x. v = Number (Fin x)) (replicate 8760 (Number (Fin (2 / 5))))
   \<and> jlt (Fin 0) (totalPresentValueEnergy initialSolar
       (Some (replicate 8760 (Number (Fin (2 / 5))))) (financial initialInputs))
   \<and> calculateLCOE (initialSolar\<lparr>powerSource.capacity := Fin (2 * 150)\<rparr>)
       (Some (replicate 8760 (Number (Fin (2 / 5))))) (financial initialInputs)
       = calculateLCOE initialSolar (Some (replicate 8760 (Number (Fin (2 / 5)))))
           (financial initialInputs)"
proof -
  have k: "powerSource.capacity initialSolar = Fin 150"
    and cx: "powerSource.capex initialSolar = Fin 1000"
    and ox: "powerSource.opex initialSolar = Fin 20"
    by (simp_all add: initialSolar_def)
  have r: "returnRate (financial initialInputs) = Fin 8" and r0: "(8 :: real) \<noteq> - 100"
    and p: "capacityFactor (financial initialInputs) = Fin 90"
    by (simp_all add: initialInputs_def)
  have cells: "\<forall>v \<in> set (replicate 8760 (Number (Fin (2 / 5)))). \<exists>x. v = Number (Fin x)"
    using exI [of "\<lambda>x :: real. Number (Fin (2 / 5)) = Number (Fin x)" "2 / 5"] by simp
  then have series: "\<forall>ts. (Some (replicate 8760 (Number (Fin (2 / 5))))) = Some ts \<longrightarrow>
      (\<forall>v \<in> set ts. \<exists>x. v = Number (Fin x))"
    by simp
  note e = example_energy
  note inst = lcoe_scaling [OF k cx ox r r0 p series e]
  show ?thesis
  proof (intro conjI)
    show "list_all (\<lambda>v. \<exists>x. v = Number (Fin x)) (replicate 8760 (Number (Fin (2 / 5))))"
      unfolding list_all_iff by (rule cells)
  qed (rule k cx ox r r0 p inst e)+
qed

end
